theory Spec2Isabelle
  imports Main "HOL-Library.Sublist"
begin

section \<open>Strings and integers of the interpreter\<close>

text \<open>
  The program is a Python alarm clock (\<^verbatim>\<open>alarm_clock.py\<close>, class \<^verbatim>\<open>AlarmClock\<close>).
  A Python \<^verbatim>\<open>str\<close> is modelled as a \<open>string\<close> whose characters are the code points
  below 256; a Python \<^verbatim>\<open>int\<close> is an \<open>int\<close>. The exceptions the program can meet are
  values of \<open>error\<close>, and a computation that may raise returns \<open>error + 'a\<close>.
\<close>

datatype error = ValueError | EOFError | OverflowError | KeyboardInterrupt

text \<open>
  \<^verbatim>\<open>str.isspace\<close> on one code point below 256: tab to carriage return, the four
  separators 0x1C to 0x1F, space, NEL and the no-break space.
\<close>

definition is_space :: "char \<Rightarrow> bool" where
  "is_space c \<longleftrightarrow> c \<in> set [CHR 0x09, CHR 0x0A, CHR 0x0B, CHR 0x0C, CHR 0x0D,
     CHR 0x1C, CHR 0x1D, CHR 0x1E, CHR 0x1F, CHR 0x20, CHR 0x85, CHR 0xA0]"

definition is_digit :: "char \<Rightarrow> bool" where
  "is_digit c \<longleftrightarrow> c \<in> set ''0123456789''"

definition digit_val :: "char \<Rightarrow> nat" where
  "digit_val c = of_char c - 48"

definition digit_char :: "nat \<Rightarrow> char" where
  "digit_char n = ''0123456789'' ! (n mod 10)"

text \<open>
  \<^verbatim>\<open>str.strip()\<close> without argument drops the white space of \<^verbatim>\<open>str.isspace\<close> at both
  ends. \<^verbatim>\<open>int\<close> drops less: the four separators 0x1C to 0x1F are not white space for it.
\<close>

definition strip_with :: "(char \<Rightarrow> bool) \<Rightarrow> string \<Rightarrow> string" where
  "strip_with sp s = rev (dropWhile sp (rev (dropWhile sp s)))"

definition strip :: "string \<Rightarrow> string" where
  "strip s = strip_with is_space s"

definition is_int_space :: "char \<Rightarrow> bool" where
  "is_int_space c \<longleftrightarrow> c \<in> set [CHR 0x09, CHR 0x0A, CHR 0x0B, CHR 0x0C, CHR 0x0D,
     CHR 0x20, CHR 0x85, CHR 0xA0]"

text \<open>\<^verbatim>\<open>str.lower()\<close>: the letters A to Z and the upper-case letters of Latin-1.\<close>

definition lower_char :: "char \<Rightarrow> char" where
  "lower_char c =
     (let n = (of_char c :: nat)
      in if (65 \<le> n \<and> n \<le> 90) \<or> (192 \<le> n \<and> n \<le> 222 \<and> n \<noteq> 215)
         then char_of (n + 32) else c)"

definition lower :: "string \<Rightarrow> string" where
  "lower s = map lower_char s"

text \<open>\<^verbatim>\<open>s.split(':')\<close>: one more part than there are colons, empty parts kept.\<close>

fun split_colon :: "string \<Rightarrow> string list" where
  "split_colon [] = [[]]"
| "split_colon (c # cs) =
     (if c = CHR '':'' then [] # split_colon cs
      else (case split_colon cs of
              p # ps \<Rightarrow> (c # p) # ps
            | [] \<Rightarrow> [[c]]))"

text \<open>
  The digits of \<^verbatim>\<open>int(s)\<close> after the sign: decimal digits, with single underscores
  allowed between two digits. \<open>digits_value acc expect_digit s\<close> reads \<open>s\<close> from the
  left; \<open>expect_digit\<close> holds at the start and after an underscore.
\<close>

fun digits_value :: "nat \<Rightarrow> bool \<Rightarrow> string \<Rightarrow> nat option" where
  "digits_value acc expect_digit [] = (if expect_digit then None else Some acc)"
| "digits_value acc expect_digit (c # cs) =
     (if is_digit c then digits_value (10 * acc + digit_val c) False cs
      else if c = CHR ''_'' \<and> \<not> expect_digit then digits_value acc True cs
      else None)"

text \<open>
  \<^verbatim>\<open>int(s)\<close> for a string in base 10: surrounding white space is dropped, one sign is
  allowed, and anything else raises \<^verbatim>\<open>ValueError\<close>. (The interpreter's configurable limit
  on the number of digits of very long literals is outside this model.)
\<close>

definition py_int :: "string \<Rightarrow> error + int" where
  "py_int s =
     (case strip_with is_int_space s of
        [] \<Rightarrow> Inl ValueError
      | c # cs \<Rightarrow>
          if c = CHR ''-'' then
            (case digits_value 0 True cs of None \<Rightarrow> Inl ValueError | Some n \<Rightarrow> Inr (- int n))
          else if c = CHR ''+'' then
            (case digits_value 0 True cs of None \<Rightarrow> Inl ValueError | Some n \<Rightarrow> Inr (int n))
          else
            (case digits_value 0 True (c # cs) of None \<Rightarrow> Inl ValueError | Some n \<Rightarrow> Inr (int n)))"

text \<open>\<^verbatim>\<open>str(n)\<close> for an integer, and the two-digit field of \<^verbatim>\<open>strftime("%H:%M")\<close>.\<close>

fun str_nat :: "nat \<Rightarrow> string" where
  "str_nat n = (if n < 10 then [digit_char n] else str_nat (n div 10) @ [digit_char (n mod 10)])"

declare str_nat.simps [simp del]

definition str_int :: "int \<Rightarrow> string" where
  "str_int i = (if i < 0 then CHR ''-'' # str_nat (nat (- i)) else str_nat (nat i))"

definition pad2 :: "nat \<Rightarrow> string" where
  "pad2 n = [digit_char (n div 10), digit_char (n mod 10)]"

section \<open>Validation of the time a user types\<close>

text \<open>
  \<^verbatim>\<open>validate_time_format\<close>: split at the colons, exactly two parts, both converted by
  \<^verbatim>\<open>int\<close>, a \<^verbatim>\<open>ValueError\<close> meaning rejection.
\<close>

definition validate_time_format :: "string \<Rightarrow> bool" where
  "validate_time_format time_str =
     (case split_colon time_str of
        [p0, p1] \<Rightarrow>
          (case py_int p0 of
             Inl _ \<Rightarrow> False
           | Inr hours \<Rightarrow>
               (case py_int p1 of
                  Inl _ \<Rightarrow> False
                | Inr minutes \<Rightarrow> 0 \<le> hours \<and> hours \<le> 23 \<and> 0 \<le> minutes \<and> minutes \<le> 59))
      | _ \<Rightarrow> False)"

section \<open>Wall-clock time\<close>

text \<open>
  A \<^verbatim>\<open>datetime\<close> is its proleptic Gregorian day number (\<^verbatim>\<open>toordinal()\<close>, from 1 for
  0001-01-01 to 3652059 for 9999-12-31) and its time of day.
\<close>

record datetime =
  ordinal :: int
  hour :: nat
  minute :: nat
  second :: nat
  microsecond :: nat

definition MAXORDINAL :: int where
  "MAXORDINAL = 3652059"

definition valid_datetime :: "datetime \<Rightarrow> bool" where
  "valid_datetime d \<longleftrightarrow>
     1 \<le> ordinal d \<and> ordinal d \<le> MAXORDINAL \<and> hour d < 24 \<and> minute d < 60 \<and>
     second d < 60 \<and> microsecond d < 1000000"

text \<open>
  \<^verbatim>\<open>datetime.timedelta(minutes=n)\<close>, normalised to days and seconds of the day; more than
  999999999 days in either direction raise \<^verbatim>\<open>OverflowError\<close>.
\<close>

definition timedelta_minutes :: "int \<Rightarrow> error + (int \<times> int)" where
  "timedelta_minutes n =
     (let days = (n * 60) div 86400; seconds = (n * 60) mod 86400
      in if \<bar>days\<bar> > 999999999 then Inl OverflowError else Inr (days, seconds))"

text \<open>
  \<^verbatim>\<open>datetime + timedelta\<close>: the sum is normalised again, and a day outside 1 to
  \<^verbatim>\<open>MAXORDINAL\<close> raises \<^verbatim>\<open>OverflowError\<close>.
\<close>

definition datetime_add :: "datetime \<Rightarrow> int \<times> int \<Rightarrow> error + datetime" where
  "datetime_add d delta =
     (let total = int (hour d * 3600 + minute d * 60 + second d) + snd delta;
          days = ordinal d + fst delta + total div 86400;
          secs = nat (total mod 86400)
      in if \<bar>days\<bar> > 999999999 then Inl OverflowError
         else if 0 < days \<and> days \<le> MAXORDINAL then
           Inr \<lparr>ordinal = days, hour = secs div 3600, minute = (secs mod 3600) div 60,
                second = secs mod 60, microsecond = microsecond d\<rparr>
         else Inl OverflowError)"

text \<open>\<^verbatim>\<open>strftime("%H:%M")\<close>.\<close>

definition strftime_HM :: "datetime \<Rightarrow> string" where
  "strftime_HM d = pad2 (hour d) @ '':'' @ pad2 (minute d)"

text \<open>
  \<^verbatim>\<open>datetime.strptime(s, "%H:%M").time()\<close>, as hour and minute. The hour field is
  \<^verbatim>\<open>2[0-3]|[0-1]\d|\d\<close>, the minute field \<^verbatim>\<open>[0-5]\d|\d\<close>, and the whole string must be
  consumed; otherwise \<^verbatim>\<open>ValueError\<close>.
\<close>

definition hour_field :: "string \<Rightarrow> nat option" where
  "hour_field s =
     (case s of
        [d] \<Rightarrow> if is_digit d then Some (digit_val d) else None
      | [d1, d2] \<Rightarrow>
          if is_digit d2 \<and> ((d1 = CHR ''2'' \<and> digit_val d2 \<le> 3) \<or> d1 \<in> set ''01'')
          then Some (10 * digit_val d1 + digit_val d2) else None
      | _ \<Rightarrow> None)"

definition minute_field :: "string \<Rightarrow> nat option" where
  "minute_field s =
     (case s of
        [d] \<Rightarrow> if is_digit d then Some (digit_val d) else None
      | [d1, d2] \<Rightarrow>
          if is_digit d2 \<and> d1 \<in> set ''012345''
          then Some (10 * digit_val d1 + digit_val d2) else None
      | _ \<Rightarrow> None)"

definition strptime_HM :: "string \<Rightarrow> error + (nat \<times> nat)" where
  "strptime_HM s =
     (case split_colon s of
        [hs, ms] \<Rightarrow>
          (case hour_field hs of
             None \<Rightarrow> Inl ValueError
           | Some h \<Rightarrow>
               (case minute_field ms of
                  None \<Rightarrow> Inl ValueError
                | Some m \<Rightarrow> Inr (h, m)))
      | _ \<Rightarrow> Inl ValueError)"

section \<open>Alarms and the state of the clock\<close>

text \<open>
  An alarm is the dictionary built by \<^verbatim>\<open>set_alarm\<close>. Alarms are mutable objects that
  the monitor threads hold by reference, so the state keeps them in a store from
  addresses to alarms: \<^verbatim>\<open>self.alarms\<close> is a list of addresses, \<^verbatim>\<open>self.active_alarm\<close> an
  optional address, and \<^verbatim>\<open>alarm.copy()\<close> allocates the next free address.
  Two fields record what the program does to its surroundings: \<open>threads\<close>, the alarms
  for which a \<^verbatim>\<open>monitor_snooze_alarm\<close> thread was started, and \<open>rang\<close>, the calls of
  \<^verbatim>\<open>play_alarm\<close> with the alarm as it was then and the sound that was made.
\<close>

record alarm =
  time :: string
  tone :: string
  snooze_duration :: int
  label :: string
  enabled :: bool
  snoozed :: bool
  snooze_count :: int

datatype cue = Played | Simulated | Fallback

type_synonym addr = nat

record world =
  heap :: "addr \<Rightarrow> alarm"
  next_addr :: addr
  alarms :: "addr list"
  active_alarm :: "addr option"
  running :: bool
  threads :: "addr list"
  rang :: "(addr \<times> alarm \<times> cue) list"

text \<open>
  What the program reads from its surroundings: whether \<^verbatim>\<open>playsound\<close> was importable,
  \<^verbatim>\<open>os.path.exists\<close>, and whether \<^verbatim>\<open>playsound\<close> raises on a file.
\<close>

record env =
  audio_available :: bool
  path_exists :: "string \<Rightarrow> bool"
  playsound_raises :: "string \<Rightarrow> bool"

text \<open>
  What \<^verbatim>\<open>input()\<close> returns, in order: a line, or \<^verbatim>\<open>KeyboardInterrupt\<close>; each with the
  wall-clock time at which it arrives. An exhausted list is the end of the input,
  where \<^verbatim>\<open>input()\<close> raises \<^verbatim>\<open>EOFError\<close>.
\<close>

datatype response = Line string | Interrupt

type_synonym event = "response \<times> datetime"

definition default_tones :: "string \<rightharpoonup> string" where
  "default_tones =
     map_of [(''1'', ''beep.wav''), (''2'', ''bell.wav''), (''3'', ''chime.wav''),
             (''4'', ''buzzer.wav'')]"

text \<open>The state after \<^verbatim>\<open>__init__\<close>; \<open>a0\<close> fills the store where nothing is allocated.\<close>

definition init_world :: "alarm \<Rightarrow> world" where
  "init_world a0 =
     \<lparr>heap = (\<lambda>_. a0), next_addr = 0, alarms = [], active_alarm = None, running = True,
      threads = [], rang = []\<rparr>"

section \<open>Ringing, dismissing and snoozing\<close>

text \<open>
  \<^verbatim>\<open>play_alarm\<close>: the sound file is played when the library and the file are there, a
  simulated beep otherwise; an exception of the player is caught.
\<close>

definition play_alarm :: "env \<Rightarrow> addr \<Rightarrow> world \<Rightarrow> world" where
  "play_alarm e a w =
     (let al = heap w a;
          c = (if audio_available e \<and> path_exists e (tone al)
               then (if playsound_raises e (tone al) then Fallback else Played)
               else Simulated)
      in w\<lparr>rang := rang w @ [(a, al, c)]\<rparr>)"

text \<open>
  \<^verbatim>\<open>snooze_alarm\<close>, with the value of \<^verbatim>\<open>datetime.datetime.now()\<close> as \<open>now\<close>. The alarm is
  marked and counted first; the copy is taken from the marked alarm and gets the new
  time and label; the slot is freed and the copy handed to a new thread.
\<close>

definition snooze_alarm :: "addr \<Rightarrow> world \<Rightarrow> datetime \<Rightarrow> world \<times> error option" where
  "snooze_alarm a w now =
     (let al = (heap w a)\<lparr>snoozed := True, snooze_count := snooze_count (heap w a) + 1\<rparr>;
          w1 = w\<lparr>heap := (heap w)(a := al)\<rparr>;
          snooze_minutes = snooze_duration al
      in case timedelta_minutes snooze_minutes of
           Inl err \<Rightarrow> (w1, Some err)
         | Inr delta \<Rightarrow>
             (case datetime_add now delta of
                Inl err \<Rightarrow> (w1, Some err)
              | Inr snooze_time \<Rightarrow>
                  (let new_alarm_time = strftime_HM snooze_time;
                       snooze_al = al\<lparr>time := new_alarm_time,
                         label := label al @ '' (Snooze '' @ str_int (snooze_count al) @ '')''\<rparr>;
                       n = next_addr w1
                   in (w1\<lparr>heap := (heap w1)(n := snooze_al), next_addr := Suc n,
                          active_alarm := None, threads := threads w1 @ [n]\<rparr>, None))))"

text \<open>
  The loop of \<^verbatim>\<open>handle_alarm_response\<close>: it runs while the slot is occupied, reads one
  response per round, and leaves on a dismissal, a snooze or an interrupt.
\<close>

fun response_loop :: "addr \<Rightarrow> world \<Rightarrow> event list \<Rightarrow> world \<times> event list \<times> error option" where
  "response_loop a w [] =
     (if active_alarm w = None then (w, [], None) else (w, [], Some EOFError))"
| "response_loop a w ((Interrupt, now) # ins) =
     (if active_alarm w = None then (w, (Interrupt, now) # ins, None)
      else (w\<lparr>active_alarm := None\<rparr>, ins, None))"
| "response_loop a w ((Line s, now) # ins) =
     (if active_alarm w = None then (w, (Line s, now) # ins, None)
      else
        (let response = strip s
         in if response = ''1'' \<or> lower response = ''dismiss'' then
              (w\<lparr>heap := (heap w)(a := (heap w a)\<lparr>snoozed := False, snooze_count := 0\<rparr>),
                 active_alarm := None\<rparr>, ins, None)
            else if response = ''2'' \<or> response = [] \<or> lower response = ''snooze'' then
              (case snooze_alarm a w now of (w', err) \<Rightarrow> (w', ins, err))
            else response_loop a w ins))"

definition handle_alarm_response ::
  "addr \<Rightarrow> world \<Rightarrow> event list \<Rightarrow> world \<times> event list \<times> error option" where
  "handle_alarm_response a w ins = response_loop a (w\<lparr>active_alarm := Some a\<rparr>) ins"

section \<open>The monitor threads\<close>

text \<open>
  One pass of the \<^verbatim>\<open>for\<close> loop of \<^verbatim>\<open>alarm_monitor\<close> over the alarms of the list, with
  \<open>ct\<close> the time read once at the start of the pass. A time that \<^verbatim>\<open>strptime\<close> rejects
  raises \<^verbatim>\<open>ValueError\<close> out of the thread.
\<close>

fun alarm_scan ::
  "env \<Rightarrow> datetime \<Rightarrow> addr list \<Rightarrow> world \<Rightarrow> event list \<Rightarrow> world \<times> event list \<times> error option" where
  "alarm_scan e ct [] w ins = (w, ins, None)"
| "alarm_scan e ct (a # as) w ins =
     (if \<not> enabled (heap w a) \<or> snoozed (heap w a) then alarm_scan e ct as w ins
      else
        (case strptime_HM (time (heap w a)) of
           Inl err \<Rightarrow> (w, ins, Some err)
         | Inr (h, m) \<Rightarrow>
             if hour ct = h \<and> minute ct = m \<and> active_alarm w = None then
               (case handle_alarm_response a (play_alarm e a w) ins of
                  (w', ins', Some err) \<Rightarrow> (w', ins', Some err)
                | (w', ins', None) \<Rightarrow> alarm_scan e ct as w' ins')
             else alarm_scan e ct as w ins))"

definition alarm_monitor_cycle ::
  "env \<Rightarrow> datetime \<Rightarrow> world \<Rightarrow> event list \<Rightarrow> world \<times> event list \<times> error option" where
  "alarm_monitor_cycle e ct w ins = alarm_scan e ct (alarms w) w ins"

text \<open>
  \<^verbatim>\<open>alarm_monitor\<close>: one cycle for each reading of the clock in \<open>clock\<close>, thirty seconds
  of sleep apart, while \<^verbatim>\<open>self.running\<close> holds. The list of readings is the stretch of
  the thread's life that is observed.
\<close>

fun alarm_monitor ::
  "env \<Rightarrow> datetime list \<Rightarrow> world \<Rightarrow> event list \<Rightarrow> world \<times> event list \<times> error option" where
  "alarm_monitor e [] w ins = (w, ins, None)"
| "alarm_monitor e (ct # clock) w ins =
     (if \<not> running w then (w, ins, None)
      else
        (case alarm_monitor_cycle e ct w ins of
           (w', ins', Some err) \<Rightarrow> (w', ins', Some err)
         | (w', ins', None) \<Rightarrow> alarm_monitor e clock w' ins'))"

text \<open>
  \<^verbatim>\<open>monitor_snooze_alarm\<close>: the target is parsed once; the loop rings at the first
  reading that matches hour and minute, and ends after that episode.
\<close>

fun snooze_wait ::
  "env \<Rightarrow> addr \<Rightarrow> nat \<times> nat \<Rightarrow> datetime list \<Rightarrow> world \<Rightarrow> event list \<Rightarrow>
   world \<times> event list \<times> error option" where
  "snooze_wait e a target [] w ins = (w, ins, None)"
| "snooze_wait e a target (ct # clock) w ins =
     (if \<not> running w then (w, ins, None)
      else if hour ct = fst target \<and> minute ct = snd target then
        handle_alarm_response a (play_alarm e a w) ins
      else snooze_wait e a target clock w ins)"

definition monitor_snooze_alarm ::
  "env \<Rightarrow> addr \<Rightarrow> datetime list \<Rightarrow> world \<Rightarrow> event list \<Rightarrow> world \<times> event list \<times> error option" where
  "monitor_snooze_alarm e a clock w ins =
     (case strptime_HM (time (heap w a)) of
        Inl err \<Rightarrow> (w, ins, Some err)
      | Inr target \<Rightarrow> snooze_wait e a target clock w ins)"

section \<open>The menu: setting, listing, toggling and deleting alarms\<close>

text \<open>The prompt loop of \<^verbatim>\<open>set_alarm\<close> for the time.\<close>

fun read_alarm_time :: "event list \<Rightarrow> (error + string) \<times> event list" where
  "read_alarm_time [] = (Inl EOFError, [])"
| "read_alarm_time ((Interrupt, t) # ins) = (Inl KeyboardInterrupt, ins)"
| "read_alarm_time ((Line s, t) # ins) =
     (let alarm_time = strip s
      in if validate_time_format alarm_time then (Inr alarm_time, ins)
         else read_alarm_time ins)"

definition endswith :: "string \<Rightarrow> string \<Rightarrow> bool" where
  "endswith s ext \<longleftrightarrow> length ext \<le> length s \<and> drop (length s - length ext) s = ext"

text \<open>\<^verbatim>\<open>os.path.join("alarm_tones", f)\<close> with the separator of POSIX.\<close>

definition tone_path :: "string \<Rightarrow> string" where
  "tone_path f = ''alarm_tones/'' @ f"

fun upload_custom_tone :: "env \<Rightarrow> event list \<Rightarrow> (error + string) \<times> event list" where
  "upload_custom_tone e [] = (Inl EOFError, [])"
| "upload_custom_tone e ((Interrupt, t) # ins) = (Inl KeyboardInterrupt, ins)"
| "upload_custom_tone e ((Line s, t) # ins) =
     (let file_path = strip s
      in if path_exists e file_path then
           (if \<exists>x \<in> set [''.wav'', ''.mp3'', ''.ogg'', ''.m4a'']. endswith (lower file_path) x
            then (Inr file_path, ins)
            else upload_custom_tone e ins)
         else
           (case ins of
              [] \<Rightarrow> (Inl EOFError, [])
            | (Interrupt, t') # ins' \<Rightarrow> (Inl KeyboardInterrupt, ins')
            | (Line u, t') # ins' \<Rightarrow>
                if lower u = ''y'' then (Inr (tone_path (the (default_tones ''1''))), ins')
                else upload_custom_tone e ins'))"

fun select_alarm_tone :: "env \<Rightarrow> event list \<Rightarrow> (error + string) \<times> event list" where
  "select_alarm_tone e [] = (Inl EOFError, [])"
| "select_alarm_tone e ((Interrupt, t) # ins) = (Inl KeyboardInterrupt, ins)"
| "select_alarm_tone e ((Line s, t) # ins) =
     (let choice = strip s
      in if choice \<in> set [''1'', ''2'', ''3'', ''4''] then
           (Inr (tone_path (the (default_tones choice))), ins)
         else if choice = ''5'' then upload_custom_tone e ins
         else select_alarm_tone e ins)"

fun custom_duration :: "event list \<Rightarrow> (error + int) \<times> event list" where
  "custom_duration [] = (Inl EOFError, [])"
| "custom_duration ((Interrupt, t) # ins) = (Inl KeyboardInterrupt, ins)"
| "custom_duration ((Line s, t) # ins) =
     (case py_int s of
        Inl _ \<Rightarrow> custom_duration ins
      | Inr d \<Rightarrow> if 1 \<le> d \<and> d \<le> 60 then (Inr d, ins) else custom_duration ins)"

fun select_snooze_duration :: "event list \<Rightarrow> (error + int) \<times> event list" where
  "select_snooze_duration [] = (Inl EOFError, [])"
| "select_snooze_duration ((Interrupt, t) # ins) = (Inl KeyboardInterrupt, ins)"
| "select_snooze_duration ((Line s, t) # ins) =
     (let choice = strip s
      in if choice = ''1'' then (Inr 5, ins)
         else if choice = ''2'' then (Inr 10, ins)
         else if choice = ''3'' then (Inr 15, ins)
         else if choice = ''4'' then custom_duration ins
         else select_snooze_duration ins)"

definition read_label :: "string \<Rightarrow> event list \<Rightarrow> (error + string) \<times> event list" where
  "read_label alarm_time ins =
     (case ins of
        [] \<Rightarrow> (Inl EOFError, [])
      | (Interrupt, t) # ins' \<Rightarrow> (Inl KeyboardInterrupt, ins')
      | (Line s, t) # ins' \<Rightarrow>
          (let l = strip s
           in (Inr (if l = [] then ''Alarm at '' @ alarm_time else l), ins')))"

text \<open>
  \<^verbatim>\<open>set_alarm\<close>: the four prompts in order, then a new dictionary appended to the list.
  An exception of a prompt leaves the state as it was.
\<close>

definition set_alarm :: "env \<Rightarrow> world \<Rightarrow> event list \<Rightarrow> world \<times> event list \<times> error option" where
  "set_alarm e w ins =
     (case read_alarm_time ins of
        (Inl err, ins1) \<Rightarrow> (w, ins1, Some err)
      | (Inr alarm_time, ins1) \<Rightarrow>
     (case select_alarm_tone e ins1 of
        (Inl err, ins2) \<Rightarrow> (w, ins2, Some err)
      | (Inr tone_choice, ins2) \<Rightarrow>
     (case select_snooze_duration ins2 of
        (Inl err, ins3) \<Rightarrow> (w, ins3, Some err)
      | (Inr duration, ins3) \<Rightarrow>
     (case read_label alarm_time ins3 of
        (Inl err, ins4) \<Rightarrow> (w, ins4, Some err)
      | (Inr l, ins4) \<Rightarrow>
          (let al = \<lparr>time = alarm_time, tone = tone_choice, snooze_duration = duration,
                     label = l, enabled = True, snoozed = False, snooze_count = 0\<rparr>;
               n = next_addr w
           in (w\<lparr>heap := (heap w)(n := al), next_addr := Suc n, alarms := alarms w @ [n]\<rparr>,
               ins4, None))))))"

text \<open>
  \<^verbatim>\<open>view_alarms\<close> prints, for each alarm and its ordinal from 1: label, time, status,
  the snooze count when the alarm is snoozed, the base name of the tone and the snooze
  duration. The state is not touched.
\<close>

definition basename :: "string \<Rightarrow> string" where
  "basename p = rev (takeWhile (\<lambda>c. c \<noteq> CHR ''/'') (rev p))"

type_synonym listing = "nat \<times> string \<times> string \<times> bool \<times> int option \<times> string \<times> int"

definition view_alarms :: "world \<Rightarrow> world \<times> listing list" where
  "view_alarms w =
     (w, map (\<lambda>(i, a).
            (let al = heap w a
             in (i, label al, time al, enabled al,
                 (if snoozed al then Some (snooze_count al) else None),
                 basename (tone al), snooze_duration al)))
          (zip [1 ..< Suc (length (alarms w))] (alarms w)))"

text \<open>What \<^verbatim>\<open>toggle_alarm\<close> and \<^verbatim>\<open>delete_alarm\<close> print.\<close>

datatype message =
    Toggled int bool
  | Deleted string
  | InvalidAlarmNumber
  | NotANumber
  | InvalidChoice
  | NoAlarms
  | Back

text \<open>
  \<^verbatim>\<open>toggle_alarm\<close>: the number typed, less one, indexes the list when it lies within
  it; a \<^verbatim>\<open>ValueError\<close> of \<^verbatim>\<open>int\<close> is caught.
\<close>

definition toggle_alarm :: "world \<Rightarrow> event list \<Rightarrow> world \<times> event list \<times> (error + message)" where
  "toggle_alarm w ins =
     (case ins of
        [] \<Rightarrow> (w, [], Inl EOFError)
      | (Interrupt, t) # ins' \<Rightarrow> (w, ins', Inl KeyboardInterrupt)
      | (Line s, t) # ins' \<Rightarrow>
          (case py_int s of
             Inl _ \<Rightarrow> (w, ins', Inr NotANumber)
           | Inr k \<Rightarrow>
               (let alarm_num = k - 1
                in if 0 \<le> alarm_num \<and> alarm_num < int (length (alarms w)) then
                     (let a = alarms w ! nat alarm_num;
                          al = (heap w a)\<lparr>enabled := \<not> enabled (heap w a)\<rparr>
                      in (w\<lparr>heap := (heap w)(a := al)\<rparr>, ins',
                          Inr (Toggled (alarm_num + 1) (enabled al))))
                   else (w, ins', Inr InvalidAlarmNumber))))"

text \<open>\<^verbatim>\<open>delete_alarm\<close>: \<^verbatim>\<open>self.alarms.pop(alarm_num)\<close> within the same bounds.\<close>

definition delete_alarm :: "world \<Rightarrow> event list \<Rightarrow> world \<times> event list \<times> (error + message)" where
  "delete_alarm w ins =
     (case ins of
        [] \<Rightarrow> (w, [], Inl EOFError)
      | (Interrupt, t) # ins' \<Rightarrow> (w, ins', Inl KeyboardInterrupt)
      | (Line s, t) # ins' \<Rightarrow>
          (case py_int s of
             Inl _ \<Rightarrow> (w, ins', Inr NotANumber)
           | Inr k \<Rightarrow>
               (let alarm_num = k - 1
                in if 0 \<le> alarm_num \<and> alarm_num < int (length (alarms w)) then
                     (let i = nat alarm_num; a = alarms w ! i
                      in (w\<lparr>alarms := take i (alarms w) @ drop (Suc i) (alarms w)\<rparr>, ins',
                          Inr (Deleted (label (heap w a)))))
                   else (w, ins', Inr InvalidAlarmNumber))))"

text \<open>\<^verbatim>\<open>manage_alarms\<close>: the listing, then one choice.\<close>

definition manage_alarms :: "world \<Rightarrow> event list \<Rightarrow> world \<times> event list \<times> (error + message)" where
  "manage_alarms w ins =
     (if alarms w = [] then (w, ins, Inr NoAlarms)
      else
        (case ins of
           [] \<Rightarrow> (w, [], Inl EOFError)
         | (Interrupt, t) # ins' \<Rightarrow> (w, ins', Inl KeyboardInterrupt)
         | (Line s, t) # ins' \<Rightarrow>
             (let choice = strip s
              in if choice = ''1'' then toggle_alarm (fst (view_alarms w)) ins'
                 else if choice = ''2'' then delete_alarm (fst (view_alarms w)) ins'
                 else if choice = ''3'' then (w, ins', Inr Back)
                 else (w, ins', Inr InvalidChoice))))"

section \<open>Notions used in the statements\<close>

text \<open>
  The day on which \<open>now\<close> plus \<open>n\<close> minutes falls is a day of the calendar, and the
  minute of that day, counted from midnight.
\<close>

definition deferral_in_calendar :: "datetime \<Rightarrow> int \<Rightarrow> bool" where
  "deferral_in_calendar now n \<longleftrightarrow>
     (let day = ordinal now + (int (hour now * 60 + minute now) + n) div 1440
      in 1 \<le> day \<and> day \<le> MAXORDINAL)"

definition minute_of_day_after :: "datetime \<Rightarrow> int \<Rightarrow> nat" where
  "minute_of_day_after now n = nat ((int (hour now * 60 + minute now) + n) mod 1440)"

text \<open>How \<^verbatim>\<open>handle_alarm_response\<close> reads a line: as a dismissal, as a snooze, or as neither.\<close>

definition says_dismiss :: "string \<Rightarrow> bool" where
  "says_dismiss s \<longleftrightarrow> strip s = ''1'' \<or> lower (strip s) = ''dismiss''"

definition says_snooze :: "string \<Rightarrow> bool" where
  "says_snooze s \<longleftrightarrow>
     \<not> says_dismiss s \<and> (strip s = ''2'' \<or> strip s = [] \<or> lower (strip s) = ''snooze'')"

fun undecided :: "event \<Rightarrow> bool" where
  "undecided (Line s, t) \<longleftrightarrow> \<not> says_dismiss s \<and> \<not> says_snooze s"
| "undecided (Interrupt, t) \<longleftrightarrow> False"

text \<open>
  An alarm is due at \<open>ct\<close> when the scan would ring it: enabled, not snoozed, and its
  time parsed to the hour and minute of \<open>ct\<close>.
\<close>

definition due :: "datetime \<Rightarrow> alarm \<Rightarrow> bool" where
  "due ct al \<longleftrightarrow>
     enabled al \<and> \<not> snoozed al \<and> strptime_HM (time al) = Inr (hour ct, minute ct)"

text \<open>
  The alarms of the list are distinct allocated objects, as \<^verbatim>\<open>set_alarm\<close> makes them.
\<close>

definition well_formed :: "world \<Rightarrow> bool" where
  "well_formed w \<longleftrightarrow> distinct (alarms w) \<and> (\<forall>a \<in> set (alarms w). a < next_addr w)"

text \<open>The alarms that a run has rung beyond those rung before, in order.\<close>

definition fired :: "world \<Rightarrow> world \<Rightarrow> addr list" where
  "fired w w' = map fst (drop (length (rang w)) (rang w'))"

text \<open>Strict \<^verbatim>\<open>HH:MM\<close>: two digits, a colon, two digits, hour below 24, minute below 60.\<close>

definition strict_HHMM :: "string \<Rightarrow> bool" where
  "strict_HHMM s \<longleftrightarrow>
     (case s of
        [h1, h2, c, m1, m2] \<Rightarrow>
          is_digit h1 \<and> is_digit h2 \<and> c = CHR '':'' \<and> is_digit m1 \<and> is_digit m2 \<and>
          10 * digit_val h1 + digit_val h2 \<le> 23 \<and> 10 * digit_val m1 + digit_val m2 \<le> 59
      | _ \<Rightarrow> False)"

subsection \<open>Concrete values for the examples\<close>

definition at_clock :: "nat \<Rightarrow> nat \<Rightarrow> datetime" where
  "at_clock h m = \<lparr>ordinal = 739558, hour = h, minute = m, second = 0, microsecond = 0\<rparr>"

definition wake :: "string \<Rightarrow> alarm" where
  "wake t = \<lparr>time = t, tone = ''alarm_tones/beep.wav'', snooze_duration = 5,
             label = ''Wake'', enabled = True, snoozed = False, snooze_count = 0\<rparr>"

definition quiet :: env where
  "quiet = \<lparr>audio_available = False, path_exists = (\<lambda>_. False), playsound_raises = (\<lambda>_. False)\<rparr>"

definition one_alarm :: "string \<Rightarrow> world" where
  "one_alarm t = (init_world (wake t))\<lparr>next_addr := 1, alarms := [0]\<rparr>"

definition two_alarms :: "string \<Rightarrow> world" where
  "two_alarms t = (init_world (wake t))\<lparr>next_addr := 2, alarms := [0, 1]\<rparr>"

text \<open>The copy that a first snooze of \<open>wake ''10:00''\<close> at 10:00 hands to its thread.\<close>

definition snoozed_copy :: alarm where
  "snoozed_copy = (wake ''10:05'')\<lparr>label := ''Wake (Snooze 1)'', snoozed := True, snooze_count := 1\<rparr>"

text \<open>Two alarms for 09:00 of which the second is disabled.\<close>

definition second_disabled :: world where
  "second_disabled =
     (two_alarms ''09:00'')\<lparr>heap := (heap (two_alarms ''09:00''))
        (1 := (wake ''09:00'')\<lparr>enabled := False\<rparr>)\<rparr>"

section \<open>Digits and the two formats of a time\<close>

lemma below_10: "(k::nat) < 10 \<Longrightarrow> k \<in> {0, 1, 2, 3, 4, 5, 6, 7, 8, 9}"
  by (simp, arith)

lemma digit_char_below_10:
  assumes "k < 10"
  shows "is_digit (digit_char k) \<and> digit_val (digit_char k) = k"
  using below_10[OF assms] unfolding is_digit_def digit_char_def digit_val_def
  by (elim insertE; simp)

lemma digit_char_mod: "digit_char n = digit_char (n mod 10)"
  by (simp add: digit_char_def)

lemma digit_char_props: "is_digit (digit_char n) \<and> digit_val (digit_char n) = n mod 10"
  using digit_char_below_10[of "n mod 10"] digit_char_mod[of n] by simp

lemma is_digit_not_colon: "is_digit c \<Longrightarrow> c \<noteq> CHR '':''"
  by (auto simp: is_digit_def)

lemma split_colon_pad2: "split_colon (pad2 h @ '':'' @ pad2 m) = [pad2 h, pad2 m]"
  using digit_char_props is_digit_not_colon by (simp add: pad2_def)

lemma below_24:
  "(k::nat) < 24 \<Longrightarrow>
   k \<in> {0, 1, 2, 3, 4, 5, 6, 7, 8, 9, 10, 11, 12, 13, 14, 15, 16, 17, 18, 19, 20, 21, 22, 23}"
  by (simp, arith)

lemma hour_field_pad2:
  assumes "h < 24"
  shows "hour_field (pad2 h) = Some h"
  using below_24[OF assms]
  by (elim insertE; simp add: hour_field_def pad2_def digit_char_def is_digit_def digit_val_def)

lemma below_6: "(k::nat) < 6 \<Longrightarrow> k \<in> {0, 1, 2, 3, 4, 5}"
  by (simp, arith)

lemma minute_field_pad2:
  assumes "m < 60"
  shows "minute_field (pad2 m) = Some m"
proof -
  have "m div 10 < 6" using assms by simp
  from below_6[OF this] have tens: "digit_char (m div 10) \<in> set ''012345''"
    by (elim insertE; simp add: digit_char_def)
  have "m div 10 mod 10 = m div 10" using assms by simp
  then have "10 * digit_val (digit_char (m div 10)) + digit_val (digit_char (m mod 10)) = m"
    using digit_char_props[of "m div 10"] digit_char_props[of "m mod 10"] by simp
  then show ?thesis
    using tens digit_char_props[of "m mod 10"] by (simp add: minute_field_def pad2_def)
qed

lemma strptime_pad2:
  "h < 24 \<Longrightarrow> m < 60 \<Longrightarrow> strptime_HM (pad2 h @ '':'' @ pad2 m) = Inr (h, m)"
  unfolding strptime_HM_def split_colon_pad2 by (simp add: hour_field_pad2 minute_field_pad2)

section \<open>Adding minutes to the wall clock\<close>

lemma minutes_of_seconds: "(secs::nat) div 3600 * 60 + (secs mod 3600) div 60 = secs div 60"
proof -
  have a: "secs div 3600 = secs div 60 div 60"
    using div_mult2_eq[of secs 60 60] by simp
  have "secs mod 3600 = 60 * (secs div 60 mod 60) + secs mod 60"
    using mod_mult2_eq[of secs 60 60] by simp
  then have b: "secs mod 3600 div 60 = secs div 60 mod 60"
    by simp
  show ?thesis unfolding a b by simp
qed

lemma minute_of_day_of_seconds:
  fixes x s :: int
  assumes "0 \<le> s" "s < 60"
  shows "((x * 60 + s) mod 86400) div 60 = x mod 1440"
proof -
  have d: "(x * 60 + s) div 60 = x" using assms by simp
  have m: "(x * 60 + s) mod 60 = s" using assms by simp
  have "(x * 60 + s) mod (60 * 1440) = 60 * ((x * 60 + s) div 60 mod 1440) + (x * 60 + s) mod 60"
    by (rule zmod_zmult2_eq) simp
  then have "(x * 60 + s) mod 86400 = 60 * (x mod 1440) + s"
    using d m by simp
  then show ?thesis using assms by simp
qed

lemma day_of_seconds:
  fixes x s :: int
  assumes "0 \<le> s" "s < 60"
  shows "(x * 60 + s) div 86400 = x div 1440"
proof -
  have d: "(x * 60 + s) div 60 = x" using assms by simp
  have "(x * 60 + s) div (60 * 1440) = (x * 60 + s) div 60 div 1440"
    by (rule zdiv_zmult2_eq) simp
  then show ?thesis using d by simp
qed

lemma timedelta_minutes_parts:
  fixes n :: int
  shows "(n * 60) div 86400 = n div 1440" and "(n * 60) mod 86400 = 60 * (n mod 1440)"
proof -
  show "(n * 60) div 86400 = n div 1440" using day_of_seconds[of 0 n] by simp
  have "(60 * n) mod (60 * 1440) = 60 * (n mod 1440)" by (rule mult_mod_right[symmetric])
  then show "(n * 60) mod 86400 = 60 * (n mod 1440)" by (simp add: mult.commute)
qed

lemma datetime_add_minutes:
  assumes v: "valid_datetime now" and c: "deferral_in_calendar now n"
  shows "\<exists>delta t. timedelta_minutes n = Inr delta \<and> datetime_add now delta = Inr t \<and>
           hour t * 60 + minute t = minute_of_day_after now n \<and> hour t < 24 \<and> minute t < 60"
proof -
  define hm where "hm = int (hour now * 60 + minute now)"
  define s where "s = int (second now)"
  define r where "r = n mod 1440"
  define q where "q = n div 1440"
  have hm: "0 \<le> hm" "hm < 1440" using v by (auto simp: hm_def valid_datetime_def)
  have s: "0 \<le> s" "s < 60" using v by (auto simp: s_def valid_datetime_def)
  have r: "0 \<le> r" "r < 1440" by (auto simp: r_def)
  have n: "n = 1440 * q + r" by (simp add: q_def r_def)
  have sod: "int (hour now * 3600 + minute now * 60 + second now) = hm * 60 + s"
    unfolding hm_def s_def by simp
  define total where "total = int (hour now * 3600 + minute now * 60 + second now) + 60 * r"
  have total: "total = (hm + r) * 60 + s" unfolding total_def sod by (simp add: algebra_simps)
  have tdiv: "total div 86400 = (hm + r) div 1440" unfolding total by (rule day_of_seconds[OF s])
  have tmod: "total mod 86400 div 60 = (hm + r) mod 1440"
    unfolding total by (rule minute_of_day_of_seconds[OF s])
  have carry: "(hm + n) div 1440 = q + (hm + r) div 1440"
    unfolding n by (simp add: add.commute add.left_commute)
  have carry01: "0 \<le> (hm + r) div 1440" "(hm + r) div 1440 \<le> 1" using hm r by auto
  have day: "1 \<le> ordinal now + q + (hm + r) div 1440"
    "ordinal now + q + (hm + r) div 1440 \<le> MAXORDINAL"
    using c carry by (auto simp: deferral_in_calendar_def hm_def Let_def)
  have ord: "1 \<le> ordinal now" "ordinal now \<le> MAXORDINAL"
    using v by (auto simp: valid_datetime_def)
  have q: "\<bar>q\<bar> \<le> 999999999" using day ord carry01 by (simp add: MAXORDINAL_def)
  have td: "timedelta_minutes n = Inr (q, 60 * r)"
    using q by (simp add: timedelta_minutes_def timedelta_minutes_parts q_def r_def Let_def)
  define secs where "secs = nat (total mod 86400)"
  define t where "t = \<lparr>ordinal = ordinal now + q + total div 86400, hour = secs div 3600,
      minute = (secs mod 3600) div 60, second = secs mod 60, microsecond = microsecond now\<rparr>"
  have da: "datetime_add now (q, 60 * r) = Inr t"
    unfolding datetime_add_def Let_def fst_conv snd_conv total_def[symmetric] secs_def[symmetric]
      t_def tdiv
    using day by (simp add: MAXORDINAL_def)
  have secs_lt: "secs < 86400" by (simp add: secs_def)
  have "int (secs div 60) = total mod 86400 div 60"
    by (simp add: secs_def zdiv_int)
  also have "\<dots> = (hm + n) mod 1440" unfolding tmod r_def by (simp add: mod_add_right_eq)
  finally have "secs div 60 = minute_of_day_after now n"
    by (simp add: minute_of_day_after_def hm_def)
  then have hmt: "hour t * 60 + minute t = minute_of_day_after now n"
    by (simp add: t_def minutes_of_seconds)
  have "hour t < 24" using secs_lt by (simp add: t_def)
  moreover have "minute t < 60" by (simp add: t_def)
  ultimately show ?thesis using td da hmt by blast
qed

section \<open>The snooze\<close>

lemma snooze_alarm_returns:
  assumes "timedelta_minutes (snooze_duration (heap w a)) = Inr delta"
    and "datetime_add now delta = Inr t"
  shows "snooze_alarm a w now =
     (w\<lparr>heap := ((heap w)(a := (heap w a)\<lparr>snoozed := True,
                                snooze_count := snooze_count (heap w a) + 1\<rparr>))
               (next_addr w := (heap w a)\<lparr>snoozed := True,
                  snooze_count := snooze_count (heap w a) + 1, time := strftime_HM t,
                  label := label (heap w a) @ '' (Snooze '' @
                           str_int (snooze_count (heap w a) + 1) @ '')''\<rparr>),
         next_addr := Suc (next_addr w), active_alarm := None,
         threads := threads w @ [next_addr w]\<rparr>, None)"
  using assms by (simp add: snooze_alarm_def Let_def)

lemma snooze_alarm_in_calendar:
  assumes "valid_datetime now" and "deferral_in_calendar now (snooze_duration (heap w a))"
  shows "\<exists>t. snooze_alarm a w now =
     (w\<lparr>heap := ((heap w)(a := (heap w a)\<lparr>snoozed := True,
                                snooze_count := snooze_count (heap w a) + 1\<rparr>))
               (next_addr w := (heap w a)\<lparr>snoozed := True,
                  snooze_count := snooze_count (heap w a) + 1, time := strftime_HM t,
                  label := label (heap w a) @ '' (Snooze '' @
                           str_int (snooze_count (heap w a) + 1) @ '')''\<rparr>),
         next_addr := Suc (next_addr w), active_alarm := None,
         threads := threads w @ [next_addr w]\<rparr>, None) \<and>
     hour t * 60 + minute t = minute_of_day_after now (snooze_duration (heap w a)) \<and>
     hour t < 24 \<and> minute t < 60"
  using datetime_add_minutes[OF assms] snooze_alarm_returns by blast

lemma hour_minute_split:
  assumes "h * 60 + m = (k::nat)" and "m < 60"
  shows "h = k div 60" and "m = k mod 60"
  using assms by auto

text \<open>
  C1. For an alarm \<open>T\<close> at address \<open>a\<close> and a reading \<open>now\<close> of the wall clock whose
  sum with the snooze duration is a date of the calendar, \<^verbatim>\<open>snooze_alarm\<close> returns and
  hands a new alarm to a thread: its time is the hour and minute of \<open>now\<close> plus the
  snooze duration, seconds dropped, in the format \<^verbatim>\<open>%H:%M\<close>; its snooze count is that of
  \<open>T\<close> plus one; its label is the label of \<open>T\<close> followed by \<^verbatim>\<open> (Snooze k)\<close> with \<open>k\<close> that
  new count. The result is a function of \<open>T\<close> and \<open>now\<close>.
\<close>

theorem snooze_alarm_deferral:
  assumes "valid_datetime now" and "deferral_in_calendar now (snooze_duration (heap w a))"
  shows "\<exists>w'. snooze_alarm a w now = (w', None) \<and>
     threads w' = threads w @ [next_addr w] \<and>
     time (heap w' (next_addr w)) =
       pad2 (minute_of_day_after now (snooze_duration (heap w a)) div 60) @ '':'' @
       pad2 (minute_of_day_after now (snooze_duration (heap w a)) mod 60) \<and>
     snooze_count (heap w' (next_addr w)) = snooze_count (heap w a) + 1 \<and>
     label (heap w' (next_addr w)) =
       label (heap w a) @ '' (Snooze '' @ str_int (snooze_count (heap w a) + 1) @ '')''"
proof -
  from snooze_alarm_in_calendar[OF assms] obtain t where
    r: "snooze_alarm a w now =
     (w\<lparr>heap := ((heap w)(a := (heap w a)\<lparr>snoozed := True,
                                snooze_count := snooze_count (heap w a) + 1\<rparr>))
               (next_addr w := (heap w a)\<lparr>snoozed := True,
                  snooze_count := snooze_count (heap w a) + 1, time := strftime_HM t,
                  label := label (heap w a) @ '' (Snooze '' @
                           str_int (snooze_count (heap w a) + 1) @ '')''\<rparr>),
         next_addr := Suc (next_addr w), active_alarm := None,
         threads := threads w @ [next_addr w]\<rparr>, None)"
    and hm: "hour t * 60 + minute t = minute_of_day_after now (snooze_duration (heap w a))"
    and m: "minute t < 60"
    by blast
  have "strftime_HM t =
       pad2 (minute_of_day_after now (snooze_duration (heap w a)) div 60) @ '':'' @
       pad2 (minute_of_day_after now (snooze_duration (heap w a)) mod 60)"
    using hour_minute_split[OF hm m] by (simp add: strftime_HM_def)
  then show ?thesis unfolding r by simp
qed

theorem snooze_alarm_deferral_witness:
  "valid_datetime (at_clock 10 0) \<and>
   deferral_in_calendar (at_clock 10 0) (snooze_duration (heap (one_alarm ''10:00'') 0)) \<and>
   (\<exists>w'. snooze_alarm 0 (one_alarm ''10:00'') (at_clock 10 0) = (w', None) \<and>
      threads w' = [1] \<and> time (heap w' 1) = ''10:05'' \<and> snooze_count (heap w' 1) = 1 \<and>
      label (heap w' 1) = ''Wake (Snooze 1)'')"
proof -
  have v: "valid_datetime (at_clock 10 0)"
    by (simp add: valid_datetime_def at_clock_def MAXORDINAL_def)
  have c: "deferral_in_calendar (at_clock 10 0) (snooze_duration (heap (one_alarm ''10:00'') 0))"
    by (simp add: deferral_in_calendar_def at_clock_def MAXORDINAL_def one_alarm_def
        init_world_def wake_def)
  have m: "minute_of_day_after (at_clock 10 0) (snooze_duration (heap (one_alarm ''10:00'') 0)) = 605"
    by (simp add: minute_of_day_after_def at_clock_def one_alarm_def init_world_def wake_def)
  show ?thesis
    using v c snooze_alarm_deferral[OF v c]
    unfolding m
    by (simp add: one_alarm_def init_world_def wake_def pad2_def digit_char_def str_int_def
        str_nat.simps)
qed

text \<open>The example of the specification, both steps: 10:00 to 10:05, then 10:05 to 10:10.\<close>

lemma snooze_alarm_twice:
  "snooze_alarm 0 (one_alarm ''10:00'') (at_clock 10 0) = (w1, e1) \<Longrightarrow>
   snooze_alarm 1 w1 (at_clock 10 5) = (w2, e2) \<Longrightarrow>
   e1 = None \<and> heap w1 1 = snoozed_copy \<and> e2 = None \<and>
   heap w2 2 = (wake ''10:10'')\<lparr>label := ''Wake (Snooze 1) (Snooze 2)'', snoozed := True,
                                 snooze_count := 2\<rparr>"
  by (auto simp add: snooze_alarm_def one_alarm_def init_world_def wake_def at_clock_def
      snoozed_copy_def timedelta_minutes_def datetime_add_def MAXORDINAL_def strftime_HM_def
      pad2_def digit_char_def str_int_def str_nat.simps Let_def)

text \<open>
  C10. Under the same conditions the time of the new alarm parses, by the format the
  monitors use, to an hour below 24 and a minute below 60, and these are the time of
  day of \<open>now\<close> plus the snooze duration modulo the 1440 minutes of a day: across
  midnight the new time is in the first hours of the next day.
\<close>

theorem snooze_alarm_time_of_day:
  assumes "valid_datetime now" and "deferral_in_calendar now (snooze_duration (heap w a))"
  shows "\<exists>w' h m. snooze_alarm a w now = (w', None) \<and>
     strptime_HM (time (heap w' (next_addr w))) = Inr (h, m) \<and> h < 24 \<and> m < 60 \<and>
     int (h * 60 + m) =
       (int (hour now * 60 + minute now) + snooze_duration (heap w a)) mod 1440"
proof -
  from snooze_alarm_in_calendar[OF assms] obtain t where
    r: "snooze_alarm a w now =
     (w\<lparr>heap := ((heap w)(a := (heap w a)\<lparr>snoozed := True,
                                snooze_count := snooze_count (heap w a) + 1\<rparr>))
               (next_addr w := (heap w a)\<lparr>snoozed := True,
                  snooze_count := snooze_count (heap w a) + 1, time := strftime_HM t,
                  label := label (heap w a) @ '' (Snooze '' @
                           str_int (snooze_count (heap w a) + 1) @ '')''\<rparr>),
         next_addr := Suc (next_addr w), active_alarm := None,
         threads := threads w @ [next_addr w]\<rparr>, None)"
    and hm: "hour t * 60 + minute t = minute_of_day_after now (snooze_duration (heap w a))"
    and h: "hour t < 24" and m: "minute t < 60"
    by blast
  have p: "strptime_HM (strftime_HM t) = Inr (hour t, minute t)"
    unfolding strftime_HM_def by (rule strptime_pad2[OF h m])
  have "int (hour t * 60 + minute t) =
       (int (hour now * 60 + minute now) + snooze_duration (heap w a)) mod 1440"
    unfolding hm by (simp add: minute_of_day_after_def)
  then show ?thesis unfolding r using p h m by simp
qed

theorem snooze_alarm_time_of_day_witness:
  "valid_datetime (at_clock 23 58) \<and>
   deferral_in_calendar (at_clock 23 58) (snooze_duration (heap (one_alarm ''23:58'') 0)) \<and>
   (\<exists>w'. snooze_alarm 0 (one_alarm ''23:58'') (at_clock 23 58) = (w', None) \<and>
      time (heap w' 1) = ''00:03'' \<and> strptime_HM (time (heap w' 1)) = Inr (0, 3))"
proof -
  have v: "valid_datetime (at_clock 23 58)"
    by (simp add: valid_datetime_def at_clock_def MAXORDINAL_def)
  have c: "deferral_in_calendar (at_clock 23 58) (snooze_duration (heap (one_alarm ''23:58'') 0))"
    by (simp add: deferral_in_calendar_def at_clock_def MAXORDINAL_def one_alarm_def
        init_world_def wake_def)
  from snooze_alarm_time_of_day[OF v c] obtain w' h m where
    r: "snooze_alarm 0 (one_alarm ''23:58'') (at_clock 23 58) = (w', None)"
    and p: "strptime_HM (time (heap w' (next_addr (one_alarm ''23:58'')))) = Inr (h, m)"
    and b: "h < 24" "m < 60"
    and e: "int (h * 60 + m) =
       (int (hour (at_clock 23 58) * 60 + minute (at_clock 23 58)) +
        snooze_duration (heap (one_alarm ''23:58'') 0)) mod 1440"
    by blast
  have n: "next_addr (one_alarm ''23:58'') = 1" by (simp add: one_alarm_def)
  have "int (h * 60 + m) = 3"
    using e by (simp add: at_clock_def one_alarm_def init_world_def wake_def)
  then have "h * 60 + m = 3" by linarith
  then have hm: "h = 0" "m = 3" by arith+
  have t: "time (heap w' 1) = ''00:03''"
    using r
    by (auto simp add: snooze_alarm_def one_alarm_def init_world_def wake_def at_clock_def
        timedelta_minutes_def datetime_add_def MAXORDINAL_def strftime_HM_def pad2_def
        digit_char_def Let_def)
  show ?thesis using v c r p t unfolding n hm by auto
qed

text \<open>
  C2, as the specification states it: the new alarm is not marked as snoozed. The
  copy is taken after the alarm has been marked, so it is marked too.
\<close>

theorem snooze_alarm_copy_unmarked_counterexample:
  "snd (snooze_alarm 0 (one_alarm ''10:00'') (at_clock 10 0)) = None \<and>
   snoozed (heap (fst (snooze_alarm 0 (one_alarm ''10:00'') (at_clock 10 0))) 1) \<noteq> False"
  by (simp add: snooze_alarm_def one_alarm_def init_world_def wake_def at_clock_def
      timedelta_minutes_def datetime_add_def MAXORDINAL_def Let_def)

text \<open>
  C2, amended. For an alarm \<open>T\<close> and a reading \<open>now\<close> as in C1, the new alarm is marked
  as snoozed, and its tone, its snooze duration and its enabled flag are those of \<open>T\<close>.
\<close>

theorem snooze_alarm_copy_fields:
  assumes "valid_datetime now" and "deferral_in_calendar now (snooze_duration (heap w a))"
  shows "\<exists>w'. snooze_alarm a w now = (w', None) \<and>
     snoozed (heap w' (next_addr w)) \<and>
     tone (heap w' (next_addr w)) = tone (heap w a) \<and>
     snooze_duration (heap w' (next_addr w)) = snooze_duration (heap w a) \<and>
     enabled (heap w' (next_addr w)) = enabled (heap w a)"
proof -
  from snooze_alarm_in_calendar[OF assms] obtain t where
    r: "snooze_alarm a w now =
     (w\<lparr>heap := ((heap w)(a := (heap w a)\<lparr>snoozed := True,
                                snooze_count := snooze_count (heap w a) + 1\<rparr>))
               (next_addr w := (heap w a)\<lparr>snoozed := True,
                  snooze_count := snooze_count (heap w a) + 1, time := strftime_HM t,
                  label := label (heap w a) @ '' (Snooze '' @
                           str_int (snooze_count (heap w a) + 1) @ '')''\<rparr>),
         next_addr := Suc (next_addr w), active_alarm := None,
         threads := threads w @ [next_addr w]\<rparr>, None)"
    by blast
  show ?thesis unfolding r by simp
qed

theorem snooze_alarm_copy_fields_witness:
  "valid_datetime (at_clock 10 0) \<and>
   deferral_in_calendar (at_clock 10 0) (snooze_duration (heap (one_alarm ''10:00'') 0)) \<and>
   (\<exists>w'. snooze_alarm 0 (one_alarm ''10:00'') (at_clock 10 0) = (w', None) \<and>
      snoozed (heap w' 1) \<and> tone (heap w' 1) = ''alarm_tones/beep.wav'' \<and>
      snooze_duration (heap w' 1) = 5 \<and> enabled (heap w' 1))"
proof -
  have v: "valid_datetime (at_clock 10 0)"
    by (simp add: valid_datetime_def at_clock_def MAXORDINAL_def)
  have c: "deferral_in_calendar (at_clock 10 0) (snooze_duration (heap (one_alarm ''10:00'') 0))"
    by (simp add: deferral_in_calendar_def at_clock_def MAXORDINAL_def one_alarm_def
        init_world_def wake_def)
  show ?thesis
    using v c snooze_alarm_copy_fields[OF v c]
    by (simp add: one_alarm_def init_world_def wake_def)
qed

section \<open>The response to a ringing alarm\<close>

lemma response_loop_undecided:
  assumes "list_all undecided pre" and "active_alarm w \<noteq> None"
  shows "response_loop a w (pre @ rest) = response_loop a w rest"
  using assms
proof (induction pre)
  case Nil
  then show ?case by simp
next
  case (Cons ev pre)
  obtain r t where ev: "ev = (r, t)" by (cases ev)
  from Cons.prems(1) have u: "undecided (r, t)" and rest: "list_all undecided pre"
    by (simp_all add: ev)
  from u obtain s where r: "r = Line s" by (cases r) simp_all
  from u have "\<not> says_dismiss s" "\<not> says_snooze s" by (simp_all add: r)
  then have "response_loop a w ((Line s, t) # pre @ rest) = response_loop a w (pre @ rest)"
    using Cons.prems(2) by (auto simp add: says_dismiss_def says_snooze_def Let_def)
  then show ?case using Cons.IH[OF rest Cons.prems(2)] by (simp add: ev r)
qed

lemma response_loop_dismiss:
  assumes "says_dismiss s" and "active_alarm w \<noteq> None"
  shows "response_loop a w ((Line s, t) # post) =
     (w\<lparr>heap := (heap w)(a := (heap w a)\<lparr>snoozed := False, snooze_count := 0\<rparr>),
        active_alarm := None\<rparr>, post, None)"
  using assms by (auto simp add: says_dismiss_def Let_def)

lemma handle_alarm_response_interrupt:
  "handle_alarm_response a w ((Interrupt, t) # post) = (w\<lparr>active_alarm := None\<rparr>, post, None)"
  by (simp add: handle_alarm_response_def)

text \<open>
  C4. When the responses to a ringing alarm \<open>T\<close> at address \<open>a\<close> are any number of lines
  that are neither a dismissal nor a snooze, followed by a dismissal (\<^verbatim>\<open>1\<close> or
  \<^verbatim>\<open>dismiss\<close>), \<^verbatim>\<open>handle_alarm_response\<close> returns without an exception, the snooze count
  of \<open>T\<close> is 0, \<open>T\<close> is not marked as snoozed, the slot is free, and no other alarm has
  changed.
\<close>

theorem dismiss_resets:
  assumes "list_all undecided pre" and "says_dismiss s"
  shows "\<exists>w'. handle_alarm_response a w (pre @ (Line s, t) # post) = (w', post, None) \<and>
     snooze_count (heap w' a) = 0 \<and> \<not> snoozed (heap w' a) \<and> active_alarm w' = None \<and>
     (\<forall>b. b \<noteq> a \<longrightarrow> heap w' b = heap w b)"
proof -
  have busy: "active_alarm (w\<lparr>active_alarm := Some a\<rparr>) \<noteq> None" by simp
  have "handle_alarm_response a w (pre @ (Line s, t) # post) =
        response_loop a (w\<lparr>active_alarm := Some a\<rparr>) ((Line s, t) # post)"
    unfolding handle_alarm_response_def by (rule response_loop_undecided[OF assms(1) busy])
  then show ?thesis
    unfolding response_loop_dismiss[OF assms(2) busy] by simp
qed

theorem dismiss_resets_witness:
  "list_all undecided [(Line ''later'', at_clock 10 15)] \<and> says_dismiss ''1'' \<and>
   snooze_count (heap ((one_alarm ''10:15'')\<lparr>heap := (\<lambda>_. (wake ''10:15'')\<lparr>snoozed := True,
      snooze_count := 3\<rparr>)\<rparr>) 0) = 3 \<and>
   (\<exists>w'. handle_alarm_response 0
       ((one_alarm ''10:15'')\<lparr>heap := (\<lambda>_. (wake ''10:15'')\<lparr>snoozed := True,
           snooze_count := 3\<rparr>)\<rparr>)
       ([(Line ''later'', at_clock 10 15)] @ (Line ''1'', at_clock 10 15) # []) = (w', [], None) \<and>
     snooze_count (heap w' 0) = 0 \<and> \<not> snoozed (heap w' 0) \<and> active_alarm w' = None)"
proof -
  have u: "list_all undecided [(Line ''later'', at_clock 10 15)]"
    by (simp add: says_dismiss_def says_snooze_def strip_def strip_with_def is_space_def
        lower_def)
  have d: "says_dismiss ''1''"
    by (simp add: says_dismiss_def strip_def strip_with_def is_space_def)
  show ?thesis
    using u d dismiss_resets[OF u d, of 0
        "(one_alarm ''10:15'')\<lparr>heap := (\<lambda>_. (wake ''10:15'')\<lparr>snoozed := True,
           snooze_count := 3\<rparr>)\<rparr>" "at_clock 10 15" "[]"]
    by auto
qed




section \<open>What an episode and a scan leave unchanged\<close>

lemma snooze_alarm_frame:
  assumes "snooze_alarm a w now = (w', err)"
  shows "alarms w' = alarms w \<and> rang w' = rang w \<and> running w' = running w \<and>
     next_addr w \<le> next_addr w' \<and>
     (\<forall>b. b \<noteq> a \<longrightarrow> b < next_addr w \<longrightarrow> heap w' b = heap w b) \<and>
     (err = None \<longrightarrow> active_alarm w' = None)"
  using assms by (auto simp add: snooze_alarm_def Let_def split: sum.splits)

lemma response_loop_frame:
  "response_loop a w ins = (w', ins', err) \<Longrightarrow>
   alarms w' = alarms w \<and> rang w' = rang w \<and> running w' = running w \<and>
   next_addr w \<le> next_addr w' \<and>
   (\<forall>b. b \<noteq> a \<longrightarrow> b < next_addr w \<longrightarrow> heap w' b = heap w b) \<and>
   (err = None \<longrightarrow> active_alarm w' = None)"
proof (induction a w ins rule: response_loop.induct)
  case (1 a w)
  then show ?case by (auto split: if_splits)
next
  case (2 a w now ins)
  then show ?case by (auto split: if_splits)
next
  case (3 a w s now ins)
  show ?case
  proof (cases "active_alarm w = None")
    case True
    then show ?thesis using "3.prems" by auto
  next
    case busy: False
    show ?thesis
    proof (cases "strip s = ''1'' \<or> lower (strip s) = ''dismiss''")
      case True
      then show ?thesis using "3.prems" busy by (auto simp add: Let_def)
    next
      case nd: False
      show ?thesis
      proof (cases "strip s = ''2'' \<or> strip s = [] \<or> lower (strip s) = ''snooze''")
        case True
        obtain w1 e1 where sn: "snooze_alarm a w now = (w1, e1)"
          by (cases "snooze_alarm a w now")
        have "w' = w1" "err = e1"
          using "3.prems" busy nd True sn by (auto simp add: Let_def)
        then show ?thesis using snooze_alarm_frame[OF sn] by simp
      next
        case False
        have "response_loop a w ins = (w', ins', err)"
          using "3.prems" busy nd False by (auto simp add: Let_def)
        then show ?thesis using "3.IH" busy nd False by simp
      qed
    qed
  qed
qed

lemma handle_alarm_response_frame:
  assumes "handle_alarm_response a w ins = (w', ins', err)"
  shows "alarms w' = alarms w \<and> rang w' = rang w \<and> running w' = running w \<and>
     next_addr w \<le> next_addr w' \<and>
     (\<forall>b. b \<noteq> a \<longrightarrow> b < next_addr w \<longrightarrow> heap w' b = heap w b) \<and>
     (err = None \<longrightarrow> active_alarm w' = None)"
  using response_loop_frame[of a "w\<lparr>active_alarm := Some a\<rparr>" ins w' ins' err] assms
  by (simp add: handle_alarm_response_def)

lemma play_alarm_frame:
  "\<exists>c. play_alarm e a w = w\<lparr>rang := rang w @ [(a, heap w a, c)]\<rparr>"
  by (auto simp add: play_alarm_def Let_def)

text \<open>
  One pass of the scan: what it rings is appended to the log; each alarm was enabled
  and not snoozed when it rang; alarms that did not ring are as before; a pass that
  rings nothing changes nothing. From a free slot and a list of distinct allocated
  alarms, the alarms rung are a prefix of the due alarms in the order of the list, and
  all of them when no exception ends the pass.
\<close>

lemma alarm_scan_effect:
  "alarm_scan e ct as w ins = (w', ins', err) \<Longrightarrow>
   alarms w' = alarms w \<and> running w' = running w \<and> next_addr w \<le> next_addr w' \<and>
   (\<exists>new. rang w' = rang w @ new \<and>
      (\<forall>x \<in> set new. enabled (fst (snd x)) \<and> \<not> snoozed (fst (snd x))) \<and>
      (\<forall>b. b < next_addr w \<longrightarrow> b \<notin> fst ` set new \<longrightarrow> heap w' b = heap w b) \<and>
      (new = [] \<longrightarrow> w' = w \<and> ins' = ins) \<and>
      (distinct as \<and> (\<forall>a \<in> set as. a < next_addr w) \<and> active_alarm w = None \<longrightarrow>
         prefix (map fst new) (filter (\<lambda>a. due ct (heap w a)) as) \<and>
         (err = None \<longrightarrow>
            map fst new = filter (\<lambda>a. due ct (heap w a)) as \<and> active_alarm w' = None)))"
proof (induction as arbitrary: w ins)
  case Nil
  then show ?case by simp
next
  case (Cons a as)
  show ?case
  proof (cases "\<not> enabled (heap w a) \<or> snoozed (heap w a)")
    case True
    then have "alarm_scan e ct as w ins = (w', ins', err)" using Cons.prems by simp
    from Cons.IH[OF this] True show ?thesis by (auto simp add: due_def)
  next
    case flags: False
    show ?thesis
    proof (cases "strptime_HM (time (heap w a))")
      case (Inl x)
      then have "w' = w" "ins' = ins" "err = Some x" using Cons.prems flags by auto
      then show ?thesis by simp
    next
      case (Inr hm)
      obtain h m where hm: "hm = (h, m)" by (cases hm)
      show ?thesis
      proof (cases "hour ct = h \<and> minute ct = m \<and> active_alarm w = None")
        case False
        then have "alarm_scan e ct as w ins = (w', ins', err)"
          using Cons.prems flags Inr hm by auto
        from Cons.IH[OF this] False Inr hm show ?thesis by (auto simp add: due_def)
      next
        case match: True
        obtain c where play: "play_alarm e a w = w\<lparr>rang := rang w @ [(a, heap w a, c)]\<rparr>"
          using play_alarm_frame by blast
        define w1 where "w1 = w\<lparr>rang := rang w @ [(a, heap w a, c)]\<rparr>"
        obtain w2 ins2 err2 where h: "handle_alarm_response a w1 ins = (w2, ins2, err2)"
          by (cases "handle_alarm_response a w1 ins")
        from handle_alarm_response_frame[OF h]
        have f: "alarms w2 = alarms w" "rang w2 = rang w @ [(a, heap w a, c)]"
          "running w2 = running w" "next_addr w \<le> next_addr w2"
          "\<And>b. b \<noteq> a \<Longrightarrow> b < next_addr w \<Longrightarrow> heap w2 b = heap w b"
          "err2 = None \<Longrightarrow> active_alarm w2 = None"
          by (simp_all add: w1_def)
        have d: "due ct (heap w a)" using flags Inr hm match by (simp add: due_def)
        show ?thesis
        proof (cases err2)
          case (Some x)
          then have r: "w' = w2" "ins' = ins2" "err = Some x"
            using Cons.prems flags Inr hm match play h by (auto simp add: w1_def)
          show ?thesis
            unfolding r using f flags d
            by (intro conjI exI[of _ "[(a, heap w a, c)]"]) auto
        next
          case None
          then have "alarm_scan e ct as w2 ins2 = (w', ins', err)"
            using Cons.prems flags Inr hm match play h by (auto simp add: w1_def)
          from Cons.IH[OF this] obtain new where
            i: "alarms w' = alarms w2" "running w' = running w2" "next_addr w2 \<le> next_addr w'"
              "rang w' = rang w2 @ new"
              "\<forall>x \<in> set new. enabled (fst (snd x)) \<and> \<not> snoozed (fst (snd x))"
              "\<forall>b. b < next_addr w2 \<longrightarrow> b \<notin> fst ` set new \<longrightarrow> heap w' b = heap w2 b"
              "distinct as \<and> (\<forall>a \<in> set as. a < next_addr w2) \<and> active_alarm w2 = None \<longrightarrow>
                 prefix (map fst new) (filter (\<lambda>a. due ct (heap w2 a)) as) \<and>
                 (err = None \<longrightarrow>
                    map fst new = filter (\<lambda>a. due ct (heap w2 a)) as \<and> active_alarm w' = None)"
            by blast
          have idle2: "active_alarm w2 = None" using f(6) None by simp
          have same: "filter (\<lambda>b. due ct (heap w2 b)) as = filter (\<lambda>b. due ct (heap w b)) as"
            if "distinct (a # as)" "\<forall>b \<in> set (a # as). b < next_addr w"
          proof (rule filter_cong[OF refl])
            fix b assume "b \<in> set as"
            then have "b \<noteq> a" "b < next_addr w" using that by auto
            then show "due ct (heap w2 b) = due ct (heap w b)" using f(5) by simp
          qed
          have wf2: "distinct as \<and> (\<forall>b \<in> set as. b < next_addr w2)"
            if "distinct (a # as)" "\<forall>b \<in> set (a # as). b < next_addr w"
            using that f(4) by auto
          have heap': "heap w' b = heap w b"
            if "b < next_addr w" "b \<notin> fst ` set ((a, heap w a, c) # new)" for b
          proof -
            have "b \<noteq> a" "b \<notin> fst ` set new" "b < next_addr w2" using that f(4) by auto
            then show ?thesis using i(6) f(5) that(1) by simp
          qed
          show ?thesis
          proof (intro conjI exI[of _ "(a, heap w a, c) # new"])
            show "alarms w' = alarms w" using i(1) f(1) by simp
            show "running w' = running w" using i(2) f(3) by simp
            show "next_addr w \<le> next_addr w'" using i(3) f(4) by simp
            show "rang w' = rang w @ (a, heap w a, c) # new" using i(4) f(2) by simp
            show "\<forall>x \<in> set ((a, heap w a, c) # new). enabled (fst (snd x)) \<and> \<not> snoozed (fst (snd x))"
              using i(5) flags by simp
            show "\<forall>b. b < next_addr w \<longrightarrow> b \<notin> fst ` set ((a, heap w a, c) # new) \<longrightarrow>
                   heap w' b = heap w b"
              using heap' by blast
            show "(a, heap w a, c) # new = [] \<longrightarrow> w' = w \<and> ins' = ins" by simp
            show "distinct (a # as) \<and> (\<forall>b \<in> set (a # as). b < next_addr w) \<and>
                  active_alarm w = None \<longrightarrow>
                  prefix (map fst ((a, heap w a, c) # new))
                    (filter (\<lambda>a. due ct (heap w a)) (a # as)) \<and>
                  (err = None \<longrightarrow>
                     map fst ((a, heap w a, c) # new) = filter (\<lambda>a. due ct (heap w a)) (a # as) \<and>
                     active_alarm w' = None)"
            proof
              assume asm: "distinct (a # as) \<and> (\<forall>b \<in> set (a # as). b < next_addr w) \<and>
                  active_alarm w = None"
              then have di: "distinct (a # as)" and al: "\<forall>b \<in> set (a # as). b < next_addr w"
                by blast+
              from i(7) wf2[OF di al] idle2 same[OF di al]
              have "prefix (map fst new) (filter (\<lambda>a. due ct (heap w a)) as) \<and>
                 (err = None \<longrightarrow>
                    map fst new = filter (\<lambda>a. due ct (heap w a)) as \<and> active_alarm w' = None)"
                by simp
              then show "prefix (map fst ((a, heap w a, c) # new))
                    (filter (\<lambda>a. due ct (heap w a)) (a # as)) \<and>
                  (err = None \<longrightarrow>
                     map fst ((a, heap w a, c) # new) = filter (\<lambda>a. due ct (heap w a)) (a # as) \<and>
                     active_alarm w' = None)"
                using d by simp
            qed
          qed
        qed
      qed
    qed
  qed
qed

section \<open>The main scan\<close>

lemmas run_defs =
  alarm_monitor_cycle_def handle_alarm_response_def play_alarm_def snooze_alarm_def
  monitor_snooze_alarm_def two_alarms_def one_alarm_def init_world_def wake_def at_clock_def
  quiet_def timedelta_minutes_def datetime_add_def MAXORDINAL_def strftime_HM_def pad2_def
  digit_char_def str_int_def str_nat.simps Let_def strptime_HM_def hour_field_def
  minute_field_def is_digit_def digit_val_def strip_def strip_with_def is_space_def
  fired_def due_def well_formed_def

lemma alarm_scan_busy:
  "active_alarm w \<noteq> None \<Longrightarrow> alarm_scan e ct as w ins = (w', ins', err) \<Longrightarrow>
   w' = w \<and> ins' = ins"
  by (induction as) (auto split: if_splits sum.splits)

lemma fired_append: "rang w' = rang w @ new \<Longrightarrow> fired w w' = map fst new"
  by (simp add: fired_def)




text \<open>
  C6. Whatever the state, the readings of the clock and the responses, every alarm
  that \<^verbatim>\<open>alarm_monitor\<close> rings was enabled and not snoozed at the moment it rang: the log
  of rung alarms grows only by such alarms, in every pass, whatever their times.
\<close>

theorem alarm_monitor_skips_disabled_and_snoozed:
  "alarm_monitor e clock w ins = (w', ins', err) \<Longrightarrow>
   \<exists>new. rang w' = rang w @ new \<and>
     (\<forall>x \<in> set new. enabled (fst (snd x)) \<and> \<not> snoozed (fst (snd x)))"
proof (induction clock arbitrary: w ins)
  case Nil
  then show ?case by simp
next
  case (Cons ct clock)
  show ?case
  proof (cases "running w")
    case False
    then show ?thesis using Cons.prems by simp
  next
    case True
    obtain w1 ins1 err1 where c: "alarm_monitor_cycle e ct w ins = (w1, ins1, err1)"
      by (cases "alarm_monitor_cycle e ct w ins")
    then have "alarm_scan e ct (alarms w) w ins = (w1, ins1, err1)"
      by (simp add: alarm_monitor_cycle_def)
    from alarm_scan_effect[OF this] obtain new1 where
      n1: "rang w1 = rang w @ new1"
        "\<forall>x \<in> set new1. enabled (fst (snd x)) \<and> \<not> snoozed (fst (snd x))"
      by blast
    show ?thesis
    proof (cases err1)
      case (Some x)
      then have "w' = w1" using Cons.prems True c by simp
      then show ?thesis using n1 by blast
    next
      case None
      then have "alarm_monitor e clock w1 ins1 = (w', ins', err)"
        using Cons.prems True c by simp
      from Cons.IH[OF this] obtain new2 where
        n2: "rang w' = rang w1 @ new2"
          "\<forall>x \<in> set new2. enabled (fst (snd x)) \<and> \<not> snoozed (fst (snd x))"
        by blast
      have "rang w' = rang w @ (new1 @ new2)" using n1(1) n2(1) by simp
      moreover have "\<forall>x \<in> set (new1 @ new2). enabled (fst (snd x)) \<and> \<not> snoozed (fst (snd x))"
        using n1(2) n2(2) by auto
      ultimately show ?thesis by blast
    qed
  qed
qed

text \<open>
  Within one pass, an alarm of the list that is disabled or snoozed when the pass
  starts does not ring in it.
\<close>

lemma alarm_monitor_cycle_skips:
  assumes "well_formed w" and "alarm_monitor_cycle e ct w ins = (w', ins', err)"
    and "\<not> enabled (heap w a) \<or> snoozed (heap w a)"
  shows "a \<notin> set (fired w w')"
proof -
  have s: "alarm_scan e ct (alarms w) w ins = (w', ins', err)"
    using assms(2) by (simp add: alarm_monitor_cycle_def)
  show ?thesis
  proof (cases "active_alarm w = None")
    case False
    from alarm_scan_busy[OF False s] show ?thesis by (simp add: fired_def)
  next
    case True
    with assms(1) have
      "distinct (alarms w) \<and> (\<forall>a \<in> set (alarms w). a < next_addr w) \<and> active_alarm w = None"
      by (simp add: well_formed_def)
    with alarm_scan_effect[OF s] obtain new where
      n: "rang w' = rang w @ new"
        "prefix (map fst new) (filter (\<lambda>a. due ct (heap w a)) (alarms w))"
      by blast
    from n(2) have "set (map fst new) \<subseteq> set (filter (\<lambda>a. due ct (heap w a)) (alarms w))"
      by (rule set_mono_prefix)
    then have "a \<notin> set (map fst new)" using assms(3) by (auto simp add: due_def)
    then show ?thesis using fired_append[OF n(1)] by simp
  qed
qed

theorem alarm_monitor_skips_disabled_and_snoozed_witness:
  "rang second_disabled = [] \<and> \<not> enabled (heap second_disabled 1) \<and>
   strptime_HM (time (heap second_disabled 1)) = Inr (hour (at_clock 9 0), minute (at_clock 9 0)) \<and>
   (\<exists>new. rang (fst (alarm_monitor quiet [at_clock 9 0, at_clock 9 0] second_disabled
                       [(Line ''2'', at_clock 9 0)])) = rang second_disabled @ new \<and>
      map fst new = [0] \<and>
      (\<forall>x \<in> set new. enabled (fst (snd x)) \<and> \<not> snoozed (fst (snd x))))"
proof -
  define r where "r = alarm_monitor quiet [at_clock 9 0, at_clock 9 0] second_disabled
                       [(Line ''2'', at_clock 9 0)]"
  have run: "alarm_monitor quiet [at_clock 9 0, at_clock 9 0] second_disabled
               [(Line ''2'', at_clock 9 0)] = (fst r, fst (snd r), snd (snd r))"
    by (simp add: r_def)
  from alarm_monitor_skips_disabled_and_snoozed[OF run] obtain new where
    n: "rang (fst r) = rang second_disabled @ new"
      "\<forall>x \<in> set new. enabled (fst (snd x)) \<and> \<not> snoozed (fst (snd x))"
    by blast
  have e: "rang second_disabled = []" by (simp add: second_disabled_def run_defs)
  have "map fst (rang (fst r)) = [0]"
    unfolding r_def by (simp add: second_disabled_def run_defs lower_def)
  then have m: "map fst new = [0]" using n(1) e by simp
  have d: "\<not> enabled (heap second_disabled 1)" by (simp add: second_disabled_def run_defs)
  have p: "strptime_HM (time (heap second_disabled 1)) =
           Inr (hour (at_clock 9 0), minute (at_clock 9 0))"
    by (simp add: second_disabled_def run_defs)
  have "\<exists>new. rang (fst r) = rang second_disabled @ new \<and> map fst new = [0] \<and>
      (\<forall>x \<in> set new. enabled (fst (snd x)) \<and> \<not> snoozed (fst (snd x)))"
    using n m by (intro exI[of _ new] conjI) simp_all
  then show ?thesis using e d p unfolding r_def by simp
qed

section \<open>Toggling\<close>

text \<open>
  C8. When the number typed is \<open>k\<close>, the index is \<open>k - 1\<close>. \<^verbatim>\<open>toggle_alarm\<close> answers
  \<^verbatim>\<open>Invalid alarm number\<close> exactly when the index is outside \<open>0\<close> to \<open>N - 1\<close>, \<open>N\<close> the
  length of the list, and then the state is as before. Within the bounds the alarm at
  that index has its enabled flag flipped and no other field changed, no other alarm
  has changed, and the list is the same.
\<close>

theorem toggle_alarm_bounds:
  assumes "py_int s = Inr k"
  shows
    "(snd (snd (toggle_alarm w ((Line s, t) # ins))) = Inr InvalidAlarmNumber \<longleftrightarrow>
        \<not> (0 \<le> k - 1 \<and> k - 1 < int (length (alarms w)))) \<and>
     (\<not> (0 \<le> k - 1 \<and> k - 1 < int (length (alarms w))) \<longrightarrow>
        fst (toggle_alarm w ((Line s, t) # ins)) = w) \<and>
     (0 \<le> k - 1 \<and> k - 1 < int (length (alarms w)) \<longrightarrow>
        heap (fst (toggle_alarm w ((Line s, t) # ins))) (alarms w ! nat (k - 1)) =
          (heap w (alarms w ! nat (k - 1)))
            \<lparr>enabled := \<not> enabled (heap w (alarms w ! nat (k - 1)))\<rparr> \<and>
        (\<forall>b. b \<noteq> alarms w ! nat (k - 1) \<longrightarrow>
           heap (fst (toggle_alarm w ((Line s, t) # ins))) b = heap w b) \<and>
        (distinct (alarms w) \<longrightarrow>
           (\<forall>j < length (alarms w). j \<noteq> nat (k - 1) \<longrightarrow>
              heap (fst (toggle_alarm w ((Line s, t) # ins))) (alarms w ! j) =
              heap w (alarms w ! j))) \<and>
        fst (toggle_alarm w ((Line s, t) # ins)) =
          w\<lparr>heap := heap (fst (toggle_alarm w ((Line s, t) # ins)))\<rparr> \<and>
        snd (snd (toggle_alarm w ((Line s, t) # ins))) =
          Inr (Toggled k (\<not> enabled (heap w (alarms w ! nat (k - 1))))))"
proof (cases "0 \<le> k - 1 \<and> k - 1 < int (length (alarms w))")
  case False
  then have "toggle_alarm w ((Line s, t) # ins) = (w, ins, Inr InvalidAlarmNumber)"
    using assms by (simp add: toggle_alarm_def Let_def)
  then show ?thesis using False by simp
next
  case True
  then have i: "nat (k - 1) < length (alarms w)" by arith
  have r: "toggle_alarm w ((Line s, t) # ins) =
      (w\<lparr>heap := (heap w)(alarms w ! nat (k - 1) :=
            (heap w (alarms w ! nat (k - 1)))
              \<lparr>enabled := \<not> enabled (heap w (alarms w ! nat (k - 1)))\<rparr>)\<rparr>, ins,
       Inr (Toggled k (\<not> enabled (heap w (alarms w ! nat (k - 1))))))"
    using assms True by (simp add: toggle_alarm_def Let_def)
  have other: "alarms w ! j \<noteq> alarms w ! nat (k - 1)"
    if "distinct (alarms w)" "j < length (alarms w)" "j \<noteq> nat (k - 1)" for j
    using that i by (simp add: nth_eq_iff_index_eq)
  show ?thesis unfolding r using True other by simp
qed

theorem toggle_alarm_bounds_witness:
  "py_int ''2'' = Inr 2 \<and> (0 \<le> (2::int) - 1 \<and> (2::int) - 1 < int (length (alarms (two_alarms ''09:00'')))) \<and>
   distinct (alarms (two_alarms ''09:00'')) \<and>
   heap (fst (toggle_alarm (two_alarms ''09:00'') ((Line ''2'', at_clock 8 0) # []))) 1 =
     (wake ''09:00'')\<lparr>enabled := False\<rparr> \<and>
   heap (fst (toggle_alarm (two_alarms ''09:00'') ((Line ''2'', at_clock 8 0) # []))) 0 =
     wake ''09:00'' \<and>
   snd (snd (toggle_alarm (two_alarms ''09:00'') ((Line ''2'', at_clock 8 0) # []))) =
     Inr (Toggled 2 False)"
proof -
  have p: "py_int ''2'' = Inr 2"
    by (simp add: py_int_def strip_with_def is_int_space_def is_digit_def digit_val_def)
  have l: "alarms (two_alarms ''09:00'') = [0, 1]" by (simp add: two_alarms_def)
  have h: "heap (two_alarms ''09:00'') = (\<lambda>_. wake ''09:00'')"
    by (simp add: two_alarms_def init_world_def)
  show ?thesis
    using p toggle_alarm_bounds[OF p, of "two_alarms ''09:00''" "at_clock 8 0" "[]"]
    unfolding l h by (simp add: wake_def)
qed

text \<open>The two bounds of the specification: the numbers 0 and \<open>N + 1\<close> are index -1 and \<open>N\<close>.\<close>

lemma toggle_alarm_out_of_range_examples:
  "toggle_alarm (two_alarms ''09:00'') [(Line ''0'', t)] =
     (two_alarms ''09:00'', [], Inr InvalidAlarmNumber) \<and>
   toggle_alarm (two_alarms ''09:00'') [(Line ''3'', t)] =
     (two_alarms ''09:00'', [], Inr InvalidAlarmNumber)"
  by (simp add: toggle_alarm_def py_int_def strip_with_def is_int_space_def is_digit_def
      digit_val_def two_alarms_def Let_def)

section \<open>What changes a snooze count\<close>

lemma set_alarm_heap:
  assumes "set_alarm e w ins = (w', ins', err)"
  shows "\<forall>b. b \<noteq> next_addr w \<longrightarrow> heap w' b = heap w b"
  using assms by (auto simp add: set_alarm_def Let_def split: prod.splits sum.splits)

lemma toggle_alarm_snooze_count:
  assumes "toggle_alarm w ins = (w', ins', res)"
  shows "snooze_count (heap w' b) = snooze_count (heap w b)"
  using assms
  by (auto simp add: toggle_alarm_def Let_def
      split: list.splits prod.splits response.splits sum.splits if_splits)

lemma delete_alarm_heap:
  assumes "delete_alarm w ins = (w', ins', res)"
  shows "heap w' = heap w"
  using assms
  by (auto simp add: delete_alarm_def Let_def
      split: list.splits prod.splits response.splits sum.splits if_splits)

lemma manage_alarms_snooze_count:
  assumes "manage_alarms w ins = (w', ins', res)"
  shows "snooze_count (heap w' b) = snooze_count (heap w b)"
proof -
  have v: "fst (view_alarms w) = w" by (simp add: view_alarms_def)
  show ?thesis
    using assms toggle_alarm_snooze_count[of w _ w' ins' res b] delete_alarm_heap[of w _ w' ins' res]
    unfolding manage_alarms_def v Let_def
    by (auto split: list.splits prod.splits response.splits if_splits)
qed

lemma snooze_alarm_counts_original:
  assumes "a \<noteq> next_addr w"
  shows "snooze_count (heap (fst (snooze_alarm a w now)) a) = snooze_count (heap w a) + 1"
  using assms by (auto simp add: snooze_alarm_def Let_def split: sum.splits)

text \<open>
  C9. The snooze count of an alarm is what it was after \<^verbatim>\<open>set_alarm\<close> (which adds a new
  alarm beside the allocated ones), \<^verbatim>\<open>toggle_alarm\<close>, \<^verbatim>\<open>delete_alarm\<close>, \<^verbatim>\<open>manage_alarms\<close>,
  \<^verbatim>\<open>view_alarms\<close>, \<^verbatim>\<open>play_alarm\<close>, a pass of the scan that rings nothing, and, for every
  alarm that did not ring, a pass that rings others. In an episode only the ringing
  alarm can change; an interrupt changes no alarm, a snooze adds one to the count of the
  ringing alarm, and a dismissal sets it to 0.
\<close>

theorem snooze_count_frame:
  "(\<forall>b < next_addr w. snooze_count (heap (fst (set_alarm e w ins)) b) = snooze_count (heap w b)) \<and>
   (\<forall>b. snooze_count (heap (fst (toggle_alarm w ins)) b) = snooze_count (heap w b)) \<and>
   heap (fst (delete_alarm w ins)) = heap w \<and>
   (\<forall>b. snooze_count (heap (fst (manage_alarms w ins)) b) = snooze_count (heap w b)) \<and>
   fst (view_alarms w) = w \<and>
   heap (play_alarm e a w) = heap w \<and>
   (fired w (fst (alarm_monitor_cycle e ct w ins)) = [] \<longrightarrow>
      fst (alarm_monitor_cycle e ct w ins) = w) \<and>
   (\<forall>b < next_addr w. b \<notin> set (fired w (fst (alarm_monitor_cycle e ct w ins))) \<longrightarrow>
      heap (fst (alarm_monitor_cycle e ct w ins)) b = heap w b) \<and>
   (\<forall>b < next_addr w. b \<noteq> a \<longrightarrow> heap (fst (handle_alarm_response a w ins)) b = heap w b) \<and>
   heap (fst (handle_alarm_response a w ((Interrupt, t) # ins))) = heap w \<and>
   (a < next_addr w \<longrightarrow>
      snooze_count (heap (fst (snooze_alarm a w now)) a) = snooze_count (heap w a) + 1) \<and>
   (says_dismiss s \<longrightarrow>
      snooze_count (heap (fst (handle_alarm_response a w ((Line s, t) # ins))) a) = 0)"
proof (intro conjI)
  show "\<forall>b < next_addr w. snooze_count (heap (fst (set_alarm e w ins)) b) = snooze_count (heap w b)"
    using set_alarm_heap[of e w ins "fst (set_alarm e w ins)" "fst (snd (set_alarm e w ins))"
        "snd (snd (set_alarm e w ins))"]
    by simp
  show "\<forall>b. snooze_count (heap (fst (toggle_alarm w ins)) b) = snooze_count (heap w b)"
    using toggle_alarm_snooze_count[of w ins "fst (toggle_alarm w ins)"
        "fst (snd (toggle_alarm w ins))" "snd (snd (toggle_alarm w ins))"]
    by simp
  show "heap (fst (delete_alarm w ins)) = heap w"
    using delete_alarm_heap[of w ins "fst (delete_alarm w ins)"
        "fst (snd (delete_alarm w ins))" "snd (snd (delete_alarm w ins))"]
    by simp
  show "\<forall>b. snooze_count (heap (fst (manage_alarms w ins)) b) = snooze_count (heap w b)"
    using manage_alarms_snooze_count[of w ins "fst (manage_alarms w ins)"
        "fst (snd (manage_alarms w ins))" "snd (snd (manage_alarms w ins))"]
    by simp
  show "fst (view_alarms w) = w" by (simp add: view_alarms_def)
  show "heap (play_alarm e a w) = heap w" by (simp add: play_alarm_def Let_def)
  define r where "r = alarm_monitor_cycle e ct w ins"
  have "alarm_scan e ct (alarms w) w ins = (fst r, fst (snd r), snd (snd r))"
    by (simp add: r_def alarm_monitor_cycle_def)
  from alarm_scan_effect[OF this] obtain new where
    n: "rang (fst r) = rang w @ new"
      "\<forall>b. b < next_addr w \<longrightarrow> b \<notin> fst ` set new \<longrightarrow> heap (fst r) b = heap w b"
      "new = [] \<longrightarrow> fst r = w"
    by blast
  have f: "fired w (fst r) = map fst new" using fired_append[OF n(1)] .
  show "fired w (fst (alarm_monitor_cycle e ct w ins)) = [] \<longrightarrow>
      fst (alarm_monitor_cycle e ct w ins) = w"
    using n(3) f by (simp add: r_def)
  show "\<forall>b < next_addr w. b \<notin> set (fired w (fst (alarm_monitor_cycle e ct w ins))) \<longrightarrow>
      heap (fst (alarm_monitor_cycle e ct w ins)) b = heap w b"
    using n(2) f by (simp add: r_def)
  show "\<forall>b < next_addr w. b \<noteq> a \<longrightarrow> heap (fst (handle_alarm_response a w ins)) b = heap w b"
    using handle_alarm_response_frame[of a w ins "fst (handle_alarm_response a w ins)"
        "fst (snd (handle_alarm_response a w ins))" "snd (snd (handle_alarm_response a w ins))"]
    by simp
  show "heap (fst (handle_alarm_response a w ((Interrupt, t) # ins))) = heap w"
    by (simp add: handle_alarm_response_interrupt)
  show "a < next_addr w \<longrightarrow>
      snooze_count (heap (fst (snooze_alarm a w now)) a) = snooze_count (heap w a) + 1"
    using snooze_alarm_counts_original[of a w now] by simp
  show "says_dismiss s \<longrightarrow>
      snooze_count (heap (fst (handle_alarm_response a w ((Line s, t) # ins))) a) = 0"
    using response_loop_dismiss[of s "w\<lparr>active_alarm := Some a\<rparr>" a t ins]
    by (simp add: handle_alarm_response_def)
qed

theorem snooze_count_frame_witness:
  "0 < next_addr (two_alarms ''09:00'') \<and>
   snooze_count (heap (fst (set_alarm quiet (two_alarms ''09:00'') [(Line ''1'', at_clock 8 0)])) 0) = 0 \<and>
   snooze_count (heap (fst (toggle_alarm (two_alarms ''09:00'') [(Line ''1'', at_clock 8 0)])) 0) = 0 \<and>
   fired (two_alarms ''09:00'')
     (fst (alarm_monitor_cycle quiet (at_clock 8 0) (two_alarms ''09:00'')
            [(Line ''1'', at_clock 8 0)])) = [] \<and>
   fst (alarm_monitor_cycle quiet (at_clock 8 0) (two_alarms ''09:00'')
            [(Line ''1'', at_clock 8 0)]) = two_alarms ''09:00'' \<and>
   heap (fst (handle_alarm_response 0 (two_alarms ''09:00'') [(Line ''1'', at_clock 8 0)])) 1 =
     wake ''09:00'' \<and>
   snooze_count (heap (fst (snooze_alarm 0 (two_alarms ''09:00'') (at_clock 8 0))) 0) = 1 \<and>
   says_dismiss ''1'' \<and>
   snooze_count (heap (fst (handle_alarm_response 0 (two_alarms ''09:00'')
      ((Line ''1'', at_clock 8 0) # [(Line ''1'', at_clock 8 0)]))) 0) = 0"
proof -
  have n: "next_addr (two_alarms ''09:00'') = 2" by (simp add: two_alarms_def)
  have h: "heap (two_alarms ''09:00'') = (\<lambda>_. wake ''09:00'')"
    by (simp add: two_alarms_def init_world_def)
  have c: "snooze_count (wake ''09:00'') = 0" by (simp add: wake_def)
  have q: "fired (two_alarms ''09:00'')
     (fst (alarm_monitor_cycle quiet (at_clock 8 0) (two_alarms ''09:00'')
            [(Line ''1'', at_clock 8 0)])) = []"
    by (simp add: run_defs)
  have d: "says_dismiss ''1''"
    by (simp add: says_dismiss_def strip_def strip_with_def is_space_def)
  show ?thesis
    using q d snooze_count_frame[of "two_alarms ''09:00''" quiet "[(Line ''1'', at_clock 8 0)]" 0
        "at_clock 8 0" "at_clock 8 0" "at_clock 8 0" "''1''"]
    unfolding n h c by simp
qed

section \<open>What the validation accepts\<close>

lemma is_digit_plain:
  assumes "is_digit c"
  shows "\<not> is_int_space c" and "c \<noteq> CHR ''-''" and "c \<noteq> CHR ''+''" and "c \<noteq> CHR ''_''"
  using assms by (auto simp add: is_digit_def is_int_space_def)

lemma py_int_two_digits:
  assumes "is_digit d1" and "is_digit d2"
  shows "py_int [d1, d2] = Inr (int (10 * digit_val d1 + digit_val d2))"
  using assms is_digit_plain[OF assms(1)] is_digit_plain[OF assms(2)]
  by (simp add: py_int_def strip_with_def)

text \<open>Every strict \<^verbatim>\<open>HH:MM\<close> with hour below 24 and minute below 60 is accepted.\<close>

lemma validate_time_format_accepts_strict:
  assumes "strict_HHMM s"
  shows "validate_time_format s"
proof -
  from assms obtain h1 h2 m1 m2 where
    s: "s = [h1, h2, CHR '':'', m1, m2]" and
    d: "is_digit h1" "is_digit h2" "is_digit m1" "is_digit m2" and
    b: "10 * digit_val h1 + digit_val h2 \<le> 23" "10 * digit_val m1 + digit_val m2 \<le> 59"
    by (auto simp add: strict_HHMM_def split: list.splits)
  have sp: "split_colon s = [[h1, h2], [m1, m2]]"
    using d is_digit_not_colon by (simp add: s)
  show ?thesis
    unfolding validate_time_format_def sp
    using b by (simp add: py_int_two_digits d)
qed

text \<open>
  C7. \<^verbatim>\<open>validate_time_format\<close> accepts strings that are not of the form \<^verbatim>\<open>HH:MM\<close>: a sign,
  white space inside, or an underscore between digits pass through \<^verbatim>\<open>int\<close>. The format
  \<^verbatim>\<open>%H:%M\<close> with which the monitor later parses the stored time rejects them: an alarm
  set with \<^verbatim>\<open>+7:30\<close> is stored, and the next pass of the scan ends with \<^verbatim>\<open>ValueError\<close>.
\<close>

theorem validate_time_format_accepts_malformed:
  "validate_time_format ''+7:30'' \<and> \<not> strict_HHMM ''+7:30'' \<and>
   strptime_HM ''+7:30'' = Inl ValueError \<and>
   validate_time_format ''12: 30'' \<and> \<not> strict_HHMM ''12: 30'' \<and>
   strptime_HM ''12: 30'' = Inl ValueError \<and>
   validate_time_format ''1_2:30'' \<and> \<not> strict_HHMM ''1_2:30'' \<and>
   strptime_HM ''1_2:30'' = Inl ValueError \<and>
   (case set_alarm quiet (init_world (wake []))
           [(Line ''+7:30'', at_clock 7 0), (Line ''1'', at_clock 7 0), (Line ''1'', at_clock 7 0),
            (Line [] , at_clock 7 0)] of
      (w, ins, err) \<Rightarrow>
        err = None \<and> alarms w = [0] \<and> time (heap w 0) = ''+7:30'' \<and>
        snd (snd (alarm_monitor_cycle quiet (at_clock 7 30) w [])) = Some ValueError)"
  by (simp add: validate_time_format_def py_int_def strip_with_def is_int_space_def is_digit_def
      digit_val_def strict_HHMM_def strptime_HM_def hour_field_def minute_field_def
      set_alarm_def read_label_def tone_path_def default_tones_def strip_def is_space_def
      init_world_def wake_def quiet_def at_clock_def alarm_monitor_cycle_def Let_def)

section \<open>States the program reaches\<close>

text \<open>
  The conditions of the statements above hold where the program runs: the snooze
  durations that \<^verbatim>\<open>set_alarm\<close> stores lie between 1 and 60, for which every time before
  the last day of the calendar can be snoozed; and the list of alarms holds distinct
  allocated objects from \<^verbatim>\<open>__init__\<close> on.
\<close>

lemma deferral_in_calendar_typical:
  assumes "valid_datetime now" and "ordinal now < MAXORDINAL" and "1 \<le> n" and "n \<le> 60"
  shows "deferral_in_calendar now n"
proof -
  define x where "x = int (hour now * 60 + minute now) + n"
  have "0 \<le> x" "x < 2 * 1440"
    using assms by (auto simp add: x_def valid_datetime_def)
  then have "0 \<le> x div 1440" "x div 1440 \<le> 1" by auto
  then show ?thesis
    using assms(1,2) unfolding deferral_in_calendar_def Let_def x_def[symmetric]
    by (simp add: valid_datetime_def)
qed

lemma custom_duration_range:
  "custom_duration ins = (Inr d, ins') \<Longrightarrow> 1 \<le> d \<and> d \<le> 60"
  by (induction ins rule: custom_duration.induct) (auto split: sum.splits if_splits)

lemma select_snooze_duration_range:
  "select_snooze_duration ins = (Inr d, ins') \<Longrightarrow> 1 \<le> d \<and> d \<le> 60"
  by (induction ins rule: select_snooze_duration.induct)
     (auto simp add: Let_def split: if_splits dest: custom_duration_range)

lemma read_alarm_time_valid:
  "read_alarm_time ins = (Inr s, ins') \<Longrightarrow> validate_time_format s"
  by (induction ins rule: read_alarm_time.induct) (auto simp add: Let_def split: if_splits)

lemma well_formed_init: "well_formed (init_world a0)"
  by (simp add: well_formed_def init_world_def)

lemma well_formed_alarm_monitor_cycle:
  assumes "well_formed w" and "alarm_monitor_cycle e ct w ins = (w', ins', err)"
  shows "well_formed w'"
proof -
  have "alarm_scan e ct (alarms w) w ins = (w', ins', err)"
    using assms(2) by (simp add: alarm_monitor_cycle_def)
  from alarm_scan_effect[OF this] have "alarms w' = alarms w" "next_addr w \<le> next_addr w'"
    by simp_all
  then show ?thesis using assms(1) by (auto simp add: well_formed_def)
qed

lemma well_formed_handle_alarm_response:
  assumes "well_formed w" and "handle_alarm_response a w ins = (w', ins', err)"
  shows "well_formed w'"
  using handle_alarm_response_frame[OF assms(2)] assms(1) by (auto simp add: well_formed_def)

end
